theory Spec2Isabelle
  imports Main "HOL-Library.Sublist"
begin

section \<open>Python values, errors and strings\<close>

text \<open>
  The resolver is a Python program. Every exception it can raise is a value of
  \<open>error\<close>; a function that may raise returns \<open>error + 'a\<close> with \<open>Inl\<close> for the
  exception. \<open>ExternalError\<close> stands for whatever an external collaborator (the
  sandbox runtime, the file system, git, the inference service) raises by itself.
  Calls of \<open>logger.info\<close> change nothing the program reads back and are left out.
\<close>

datatype error =
    RuntimeError string
  | ValueError string
  | AttributeError string
  | IndexError string
  | KeyError string
  | TypeError string
  | JSONDecodeError string
  | KeyboardInterrupt
  | FileNotFoundError string
  | ExternalError string

text \<open>\<open>str(n)\<close> for an integer, as the f-strings of the error messages print it.\<close>

fun str_nat :: "nat \<Rightarrow> string" where
  "str_nat n =
     (if n < 10 then [char_of (48 + n)]
      else str_nat (n div 10) @ [char_of (48 + n mod 10)])"

declare str_nat.simps [simp del]

definition str_int :: "int \<Rightarrow> string" where
  "str_int i = (if i < 0 then CHR ''-'' # str_nat (nat (- i)) else str_nat (nat i))"

text \<open>
  A string is the list of the bytes of its UTF-8 encoding. \<open>str.strip()\<close> removes
  leading and trailing whitespace characters, which for a Python string are the
  code points U+0009 to U+000D, U+001C to U+0020, U+0085, U+00A0, U+1680, U+2000
  to U+200A, U+2028, U+2029, U+202F, U+205F and U+3000; \<open>whitespace_codes\<close> lists
  their encodings. An encoding at the start of a string is that character, and
  so is one at its end, because no encoding is the tail of another character's.
\<close>

definition whitespace_codes :: "string list" where
  "whitespace_codes =
     [[CHR 0x09], [CHR 0x0A], [CHR 0x0B], [CHR 0x0C], [CHR 0x0D],
      [CHR 0x1C], [CHR 0x1D], [CHR 0x1E], [CHR 0x1F], [CHR 0x20],
      [CHR 0xC2, CHR 0x85], [CHR 0xC2, CHR 0xA0],
      [CHR 0xE1, CHR 0x9A, CHR 0x80],
      [CHR 0xE2, CHR 0x80, CHR 0x80], [CHR 0xE2, CHR 0x80, CHR 0x81],
      [CHR 0xE2, CHR 0x80, CHR 0x82], [CHR 0xE2, CHR 0x80, CHR 0x83],
      [CHR 0xE2, CHR 0x80, CHR 0x84], [CHR 0xE2, CHR 0x80, CHR 0x85],
      [CHR 0xE2, CHR 0x80, CHR 0x86], [CHR 0xE2, CHR 0x80, CHR 0x87],
      [CHR 0xE2, CHR 0x80, CHR 0x88], [CHR 0xE2, CHR 0x80, CHR 0x89],
      [CHR 0xE2, CHR 0x80, CHR 0x8A],
      [CHR 0xE2, CHR 0x80, CHR 0xA8], [CHR 0xE2, CHR 0x80, CHR 0xA9],
      [CHR 0xE2, CHR 0x80, CHR 0xAF], [CHR 0xE2, CHR 0x81, CHR 0x9F],
      [CHR 0xE3, CHR 0x80, CHR 0x80]]"

function strip_leading :: "string list \<Rightarrow> string \<Rightarrow> string" where
  "strip_leading codes s =
     (case find (\<lambda>w. w \<noteq> [] \<and> prefix w s) codes of
        None \<Rightarrow> s
      | Some w \<Rightarrow> strip_leading codes (drop (length w) s))"
  by pat_completeness auto
termination
proof (relation "measure (\<lambda>(codes, s). length s)")
  show "wf (measure (\<lambda>(codes, s). length s))" by simp
next
  fix codes :: "string list" and s w :: string
  assume "find (\<lambda>w. w \<noteq> [] \<and> prefix w s) codes = Some w"
  then have "w \<noteq> []" "prefix w s" by (auto simp: find_Some_iff)
  then have "0 < length w" "length w \<le> length s" by (simp_all add: prefix_length_le)
  then have "length s - length w < length s" by arith
  then show "((codes, drop (length w) s), (codes, s)) \<in> measure (\<lambda>(codes, s). length s)"
    by simp
qed

declare strip_leading.simps [simp del]

definition py_strip :: "string \<Rightarrow> string" where
  "py_strip s =
     rev (strip_leading (map rev whitespace_codes) (rev (strip_leading whitespace_codes s)))"

lemma py_strip_empty: "py_strip [] = []"
  by code_simp

lemma py_strip_unicode:
  "py_strip ([CHR 0x20, CHR 0xC2, CHR 0xA0] @ ''a b'' @ [CHR 0xE2, CHR 0x80, CHR 0xA8, CHR 0x0A])
     = ''a b''"
  by code_simp

section \<open>The sandbox runtime\<close>

text \<open>
  The runtime is external. The program sees it through \<open>runtime.run_action\<close>,
  which takes a \<open>CmdRunAction\<close> and answers with an observation: a
  \<open>CmdOutputObservation\<close> (exit code and output), an \<open>ErrorObservation\<close>, or an
  observation of some other class, kept with the name of its type. A runtime is
  a state \<open>'r\<close> and a function of type \<open>'r run_action\<close>; what it answers may depend
  on everything it was asked before.

  \<open>CmdRunAction(command=c)\<close> leaves \<open>keep_prompt\<close> at the class's default \<open>True\<close>
  and sets no timeout (\<open>None\<close> here).

  The trace of a pipeline lists what it did to the outside, in order: each action
  run with the observation it got, each \<open>asyncio.sleep\<close> with its seconds, and
  each call of the inference service (\<open>completion\<close>) with its model, its prompt
  and its API key.
\<close>

datatype observation =
    CmdOutputObservation (exit_code: int) (content: string)
  | ErrorObservation (content: string)
  | OtherObservation string

record CmdRunAction =
  command :: string
  keep_prompt :: bool
  timeout :: "int option"

datatype event =
    Ran CmdRunAction observation
  | Slept nat
  | Asked string string string

type_synonym 'r run_action = "'r \<Rightarrow> CmdRunAction \<Rightarrow> observation \<times> 'r"

type_synonym ('r, 'a) outcome = "(error + 'a) \<times> 'r \<times> event list"

text \<open>
  Sequencing: an exception of the first part ends the whole; otherwise the
  second part runs from the runtime state the first left, and the traces are
  joined.
\<close>

definition and_then ::
  "('r, 'a) outcome \<Rightarrow> ('a \<Rightarrow> 'r \<Rightarrow> ('r, 'b) outcome) \<Rightarrow> ('r, 'b) outcome" where
  "and_then m f =
     (case m of
        (Inl e, rt, evs) \<Rightarrow> (Inl e, rt, evs)
      | (Inr x, rt, evs) \<Rightarrow>
          (case f x rt of (r, rt', evs') \<Rightarrow> (r, rt', evs @ evs')))"

text \<open>
  The block that \<open>initialize_runtime\<close> and \<open>complete_runtime\<close> repeat for each
  setup command:
  \<^verbatim>\<open>
  action = CmdRunAction(command=c)
  obs = await runtime.run_action(action)
  if not isinstance(obs, CmdOutputObservation) or obs.exit_code != 0:
      raise RuntimeError(f"<msg>{obs.exit_code}")
  \<close>
  For an observation of another class the message itself cannot be built: it reads
  \<open>obs.exit_code\<close>, which only a \<open>CmdOutputObservation\<close> has, so the exception is
  an \<open>AttributeError\<close>.
\<close>

definition setup_action :: "string \<Rightarrow> CmdRunAction" where
  "setup_action cmd = \<lparr>command = cmd, keep_prompt = True, timeout = None\<rparr>"

definition run_checked ::
  "'r run_action \<Rightarrow> string \<Rightarrow> string \<Rightarrow> 'r \<Rightarrow> ('r, unit) outcome" where
  "run_checked run cmd msg rt =
     (let action = setup_action cmd;
          (obs, rt') = run rt action
      in ((case obs of
             CmdOutputObservation ec c \<Rightarrow>
               if ec \<noteq> 0 then Inl (RuntimeError (msg @ str_int ec)) else Inr ()
           | _ \<Rightarrow> Inl (AttributeError ''exit_code'')),
          rt', [Ran action obs]))"

definition initialize_runtime :: "'r run_action \<Rightarrow> 'r \<Rightarrow> ('r, unit) outcome" where
  \<open>initialize_runtime run rt =
     and_then
       (run_checked run ''cd /workspace''
          ''Failed to change directory to /workspace. Exit code: '' rt)
       (\<lambda>_ rt. run_checked run ''git config --global core.pager ""''
          ''Failed to set git config. Exit code: '' rt)\<close>

section \<open>The outcome extractor\<close>

text \<open>
  The retry loop of \<open>complete_runtime\<close>:
  \<^verbatim>\<open>
  n_retries = 0
  git_patch = None
  while n_retries < 5:
      action = CmdRunAction(command=f'git diff --no-color --cached {base_commit}',
                            keep_prompt=False)
      action.timeout = 600 + 100 * n_retries
      obs = await runtime.run_action(action)
      n_retries += 1
      if isinstance(obs, CmdOutputObservation):
          if obs.exit_code == 0:
              git_patch = obs.content.strip()
              break
          else:
              await asyncio.sleep(10)
      elif isinstance(obs, ErrorObservation):
          await asyncio.sleep(10)
      else:
          raise ValueError(f'Unexpected observation type: {type(obs)}')
  \<close>
  \<open>diff_loop run base_commit n_retries rt\<close> is the loop entered with the counter at
  \<open>n_retries\<close>; its value is \<open>git_patch\<close> (\<open>None\<close> for Python's \<open>None\<close>) or the
  exception.
\<close>

definition diff_action :: "string \<Rightarrow> nat \<Rightarrow> CmdRunAction" where
  "diff_action base_commit n_retries =
     \<lparr>command = ''git diff --no-color --cached '' @ base_commit,
      keep_prompt = False,
      timeout = Some (600 + 100 * int n_retries)\<rparr>"

function diff_loop ::
  "'r run_action \<Rightarrow> string \<Rightarrow> nat \<Rightarrow> 'r \<Rightarrow> ('r, string option) outcome" where
  "diff_loop run base_commit n_retries rt =
     (if n_retries < 5 then
        (let action = diff_action base_commit n_retries;
             (obs, rt') = run rt action
         in case obs of
              CmdOutputObservation ec c \<Rightarrow>
                if ec = 0 then (Inr (Some (py_strip c)), rt', [Ran action obs])
                else (case diff_loop run base_commit (n_retries + 1) rt' of
                        (r, rt'', evs) \<Rightarrow> (r, rt'', Ran action obs # Slept 10 # evs))
            | ErrorObservation c \<Rightarrow>
                (case diff_loop run base_commit (n_retries + 1) rt' of
                   (r, rt'', evs) \<Rightarrow> (r, rt'', Ran action obs # Slept 10 # evs))
            | OtherObservation ty \<Rightarrow>
                (Inl (ValueError (''Unexpected observation type: '' @ ty)), rt',
                 [Ran action obs]))
      else (Inr None, rt, []))"
  by pat_completeness auto
termination
  by (relation "measure (\<lambda>(run, base_commit, n_retries, rt). 5 - n_retries)") auto

declare diff_loop.simps [simp del]

definition complete_runtime ::
  "'r run_action \<Rightarrow> 'r \<Rightarrow> string \<Rightarrow> ('r, string option) outcome" where
  \<open>complete_runtime run rt base_commit =
     and_then
       (run_checked run ''cd /workspace''
          ''Failed to change directory to /workspace. Exit code: '' rt)
     (\<lambda>_ rt. and_then
       (run_checked run ''git config --global core.pager ""''
          ''Failed to set git config. Exit code: '' rt)
     (\<lambda>_ rt. and_then
       (run_checked run ''git config --global --add safe.directory /workspace''
          ''Failed to set git config. Exit code: '' rt)
     (\<lambda>_ rt. and_then
       (run_checked run ''git add -A'' ''Failed to git add. Exit code: '' rt)
     (\<lambda>_ rt. diff_loop run base_commit 0 rt))))\<close>

subsection \<open>Reading a trace\<close>

text \<open>
  An attempt is an action run together with its observation. It failed when the
  command ended with a non-zero exit code or the observation is an
  \<open>ErrorObservation\<close>, the two cases after which the loop sleeps and goes on.
\<close>

fun failed_attempt :: "observation \<Rightarrow> bool" where
  "failed_attempt (CmdOutputObservation ec c) = (ec \<noteq> 0)"
| "failed_attempt (ErrorObservation c) = True"
| "failed_attempt (OtherObservation ty) = False"

fun attempts :: "event list \<Rightarrow> (CmdRunAction \<times> observation) list" where
  "attempts [] = []"
| "attempts (Ran a obs # evs) = (a, obs) # attempts evs"
| "attempts (Slept s # evs) = attempts evs"
| "attempts (Asked m p k # evs) = attempts evs"

subsection \<open>One iteration of the retry loop\<close>

lemma diff_loop_done:
  "\<not> k < 5 \<Longrightarrow> diff_loop run bc k rt = (Inr None, rt, [])"
  by (simp add: diff_loop.simps)

lemma diff_loop_zero:
  "k < 5 \<Longrightarrow> run rt (diff_action bc k) = (CmdOutputObservation 0 c, rt1) \<Longrightarrow>
   diff_loop run bc k rt =
     (Inr (Some (py_strip c)), rt1, [Ran (diff_action bc k) (CmdOutputObservation 0 c)])"
  by (simp add: diff_loop.simps [of run bc k rt])

lemma diff_loop_retry:
  "k < 5 \<Longrightarrow> run rt (diff_action bc k) = (obs, rt1) \<Longrightarrow> failed_attempt obs \<Longrightarrow>
   diff_loop run bc (Suc k) rt1 = (r, rt2, evs) \<Longrightarrow>
   diff_loop run bc k rt = (r, rt2, Ran (diff_action bc k) obs # Slept 10 # evs)"
  by (cases obs) (simp_all add: diff_loop.simps [of run bc k rt])

lemma diff_loop_other:
  "k < 5 \<Longrightarrow> run rt (diff_action bc k) = (OtherObservation ty, rt1) \<Longrightarrow>
   diff_loop run bc k rt =
     (Inl (ValueError (''Unexpected observation type: '' @ ty)), rt1,
      [Ran (diff_action bc k) (OtherObservation ty)])"
  by (simp add: diff_loop.simps [of run bc k rt])

text \<open>The shape of one run of the loop, as a case distinction.\<close>

lemma diff_loop_shape:
  assumes "diff_loop run bc k rt = (res, rt', evs)"
  obtains (finished) "\<not> k < 5" "res = Inr None" "evs = []"
  | (zero) c rt1 where "k < 5" "run rt (diff_action bc k) = (CmdOutputObservation 0 c, rt1)"
      "res = Inr (Some (py_strip c))" "evs = [Ran (diff_action bc k) (CmdOutputObservation 0 c)]"
  | (retry) obs rt1 evs1 where "k < 5" "run rt (diff_action bc k) = (obs, rt1)" "failed_attempt obs"
      "diff_loop run bc (Suc k) rt1 = (res, rt', evs1)"
      "evs = Ran (diff_action bc k) obs # Slept 10 # evs1"
  | (other) ty rt1 where "k < 5" "run rt (diff_action bc k) = (OtherObservation ty, rt1)"
      "res = Inl (ValueError (''Unexpected observation type: '' @ ty))"
      "evs = [Ran (diff_action bc k) (OtherObservation ty)]"
proof (cases "k < 5")
  case False
  with assms diff_loop_done [of k run bc rt] show ?thesis by (auto intro: finished)
next
  case True
  obtain obs rt1 where r: "run rt (diff_action bc k) = (obs, rt1)" by (cases "run rt (diff_action bc k)")
  show ?thesis
  proof (cases obs)
    case (CmdOutputObservation ec c)
    show ?thesis
    proof (cases "ec = 0")
      case True
      with \<open>k < 5\<close> r CmdOutputObservation assms diff_loop_zero [of k run rt bc c rt1]
      show ?thesis by (auto intro: zero)
    next
      case False
      obtain r2 rt2 evs2 where d: "diff_loop run bc (Suc k) rt1 = (r2, rt2, evs2)"
        by (cases "diff_loop run bc (Suc k) rt1")
      from False CmdOutputObservation have "failed_attempt obs" by simp
      with \<open>k < 5\<close> r d assms diff_loop_retry [of k run rt bc obs rt1 r2 rt2 evs2]
      show ?thesis by (auto intro: retry)
    qed
  next
    case (ErrorObservation c)
    obtain r2 rt2 evs2 where d: "diff_loop run bc (Suc k) rt1 = (r2, rt2, evs2)"
      by (cases "diff_loop run bc (Suc k) rt1")
    from ErrorObservation have "failed_attempt obs" by simp
    with \<open>k < 5\<close> r d assms diff_loop_retry [of k run rt bc obs rt1 r2 rt2 evs2]
    show ?thesis by (auto intro: retry)
  next
    case (OtherObservation ty)
    with \<open>k < 5\<close> r assms diff_loop_other [of k run rt bc ty rt1]
    show ?thesis by (auto intro: other)
  qed
qed

subsection \<open>Properties of the whole loop, for any value of the counter\<close>

lemma diff_loop_attempts_le:
  "diff_loop run bc k rt = (res, rt', evs) \<Longrightarrow> length (attempts evs) \<le> 5 - k"
proof (induction "5 - k" arbitrary: k rt evs)
  case 0
  from "0.prems" show ?case
    by (cases rule: diff_loop_shape) (use 0 in auto)
next
  case (Suc d)
  from Suc.prems show ?case
  proof (cases rule: diff_loop_shape)
    case (retry obs rt1 evs1)
    from Suc.hyps(2) have "d = 5 - Suc k" by simp
    from Suc.hyps(1) [OF this retry(4)] retry(1,5) show ?thesis by simp
  qed (use Suc.hyps(2) in auto)
qed

lemma diff_loop_nth_attempt:
  "diff_loop run bc k rt = (res, rt', evs) \<Longrightarrow> n < length (attempts evs) \<Longrightarrow>
   fst (attempts evs ! n) = diff_action bc (k + n)"
proof (induction "5 - k" arbitrary: k rt evs n)
  case 0
  from "0.prems"(1) show ?case
    by (cases rule: diff_loop_shape) (use 0 in auto)
next
  case (Suc d)
  from Suc.prems(1) show ?case
  proof (cases rule: diff_loop_shape)
    case (retry obs rt1 evs1)
    from Suc.hyps(2) have d: "d = 5 - Suc k" by simp
    show ?thesis
    proof (cases n)
      case 0
      with retry show ?thesis by simp
    next
      case (Suc m)
      with Suc.prems(2) retry(5) have "m < length (attempts evs1)" by simp
      from Suc.hyps(1) [OF d retry(4) this] Suc retry(5) show ?thesis by simp
    qed
  qed (use Suc.prems(2) in auto)
qed

lemma diff_loop_backoff:
  "diff_loop run bc k rt = (res, rt', evs) \<Longrightarrow> i < length evs \<Longrightarrow>
   evs ! i = Ran a obs \<Longrightarrow> failed_attempt obs \<Longrightarrow>
   Suc i < length evs \<and> evs ! Suc i = Slept 10"
proof (induction "5 - k" arbitrary: k rt evs i)
  case 0
  from "0.prems"(1) show ?case
    by (cases rule: diff_loop_shape) (use 0 in auto)
next
  case (Suc d)
  from Suc.prems(1) show ?case
  proof (cases rule: diff_loop_shape)
    case (retry obs1 rt1 evs1)
    from Suc.hyps(2) have d: "d = 5 - Suc k" by simp
    show ?thesis
    proof (cases i)
      case 0
      with retry show ?thesis by simp
    next
      case (Suc j)
      show ?thesis
      proof (cases j)
        case 0
        with Suc retry(5) Suc.prems(3) show ?thesis by simp
      next
        case (Suc m)
        with \<open>i = Suc j\<close> Suc.prems(2,3) retry(5)
        have "m < length evs1" "evs1 ! m = Ran a obs" by simp_all
        from Suc.hyps(1) [OF d retry(4) this Suc.prems(4)] Suc \<open>i = Suc j\<close> retry(5)
        show ?thesis by simp
      qed
    qed
  qed (use Suc.prems(2,3,4) in auto)
qed

lemma diff_loop_zero_exit:
  "diff_loop run bc k rt = (res, rt', evs) \<Longrightarrow> i < length evs \<Longrightarrow>
   evs ! i = Ran a (CmdOutputObservation 0 c) \<Longrightarrow>
   Suc i = length evs \<and> res = Inr (Some (py_strip c))"
proof (induction "5 - k" arbitrary: k rt evs i)
  case 0
  from "0.prems"(1) show ?case
    by (cases rule: diff_loop_shape) (use 0 in auto)
next
  case (Suc d)
  from Suc.prems(1) show ?case
  proof (cases rule: diff_loop_shape)
    case (retry obs1 rt1 evs1)
    from Suc.hyps(2) have d: "d = 5 - Suc k" by simp
    show ?thesis
    proof (cases i)
      case 0
      with retry Suc.prems(3) show ?thesis by auto
    next
      case (Suc j)
      show ?thesis
      proof (cases j)
        case 0
        with Suc retry(5) Suc.prems(3) show ?thesis by simp
      next
        case (Suc m)
        with \<open>i = Suc j\<close> Suc.prems(2,3) retry(5)
        have "m < length evs1" "evs1 ! m = Ran a (CmdOutputObservation 0 c)" by simp_all
        from Suc.hyps(1) [OF d retry(4) this] Suc \<open>i = Suc j\<close> retry(5)
        show ?thesis by simp
      qed
    qed
  qed (use Suc.prems(2,3) in auto)
qed

lemma diff_loop_exhausted:
  "diff_loop run bc k rt = (res, rt', evs) \<Longrightarrow>
   \<forall>(a, obs) \<in> set (attempts evs). failed_attempt obs \<Longrightarrow>
   res = Inr None \<and> length (attempts evs) = 5 - k"
proof (induction "5 - k" arbitrary: k rt evs)
  case 0
  from "0.prems"(1) show ?case
    by (cases rule: diff_loop_shape) (use 0 in auto)
next
  case (Suc d)
  from Suc.prems(1) show ?case
  proof (cases rule: diff_loop_shape)
    case (retry obs1 rt1 evs1)
    from Suc.hyps(2) have d: "d = 5 - Suc k" by simp
    from Suc.prems(2) retry(5) have "\<forall>(a, obs) \<in> set (attempts evs1). failed_attempt obs" by simp
    from Suc.hyps(1) [OF d retry(4) this] retry(1,5) show ?thesis by auto
  qed (use Suc.prems(2) in auto)
qed

subsection \<open>What the runtime answers to the successive attempts\<close>

text \<open>
  The loop threads the runtime through its attempts: attempt \<open>m\<close> is sent to the
  runtime as the attempts before it left it. \<open>runtime_before run bc k n rt\<close> is the
  runtime after the attempts \<open>k\<close>, ..., \<open>n - 1\<close> were sent to \<open>rt\<close>, and
  \<open>answer run bc k n rt\<close> is the observation the runtime then returns for attempt
  \<open>n\<close>. Both are read off \<open>run\<close> alone, not off the loop.
\<close>

definition runtime_before :: "'r run_action \<Rightarrow> string \<Rightarrow> nat \<Rightarrow> nat \<Rightarrow> 'r \<Rightarrow> 'r" where
  "runtime_before run bc k n rt = fold (\<lambda>m r. snd (run r (diff_action bc m))) [k..<n] rt"

definition answer :: "'r run_action \<Rightarrow> string \<Rightarrow> nat \<Rightarrow> nat \<Rightarrow> 'r \<Rightarrow> observation" where
  "answer run bc k n rt = fst (run (runtime_before run bc k n rt) (diff_action bc n))"

lemma runtime_before_start [simp]: "runtime_before run bc k k rt = rt"
  by (simp add: runtime_before_def)

lemma runtime_before_step:
  "k < n \<Longrightarrow> run rt (diff_action bc k) = (obs, rt1) \<Longrightarrow>
   runtime_before run bc k n rt = runtime_before run bc (Suc k) n rt1"
  by (simp add: runtime_before_def upt_conv_Cons)

lemma runtime_before_Suc:
  "k \<le> n \<Longrightarrow>
   runtime_before run bc k (Suc n) rt
     = snd (run (runtime_before run bc k n rt) (diff_action bc n))"
  by (simp add: runtime_before_def)

lemma answer_start: "run rt (diff_action bc k) = (obs, rt1) \<Longrightarrow> answer run bc k k rt = obs"
  by (simp add: answer_def)

lemma answer_step:
  "k < n \<Longrightarrow> run rt (diff_action bc k) = (obs, rt1) \<Longrightarrow>
   answer run bc k n rt = answer run bc (Suc k) n rt1"
  by (simp add: answer_def runtime_before_step)

lemma diff_loop_nth_answer:
  "diff_loop run bc k rt = (res, rt', evs) \<Longrightarrow> n < length (attempts evs) \<Longrightarrow>
   attempts evs ! n = (diff_action bc (k + n), answer run bc k (k + n) rt)"
proof (induction "5 - k" arbitrary: k rt evs n)
  case 0
  from "0.prems"(1) show ?case
    by (cases rule: diff_loop_shape) (use 0 in auto)
next
  case (Suc d)
  from Suc.prems(1) show ?case
  proof (cases rule: diff_loop_shape)
    case finished
    with Suc.prems(2) show ?thesis by simp
  next
    case (zero c rt1)
    with Suc.prems(2) show ?thesis by (simp add: answer_start)
  next
    case (retry obs rt1 evs1)
    from Suc.hyps(2) have d: "d = 5 - Suc k" by simp
    show ?thesis
    proof (cases n)
      case 0
      with retry show ?thesis by (simp add: answer_start)
    next
      case (Suc m)
      with Suc.prems(2) retry(5) have "m < length (attempts evs1)" by simp
      have "answer run bc k (k + n) rt = answer run bc (Suc k) (k + n) rt1"
        using Suc retry(2) by (intro answer_step) simp_all
      with Suc.hyps(1) [OF d retry(4) \<open>m < length (attempts evs1)\<close>] Suc retry(5)
      show ?thesis by simp
    qed
  next
    case (other ty rt1)
    with Suc.prems(2) show ?thesis by (simp add: answer_start)
  qed
qed

lemma diff_loop_first_zero:
  "diff_loop run bc k rt = (res, rt', evs) \<Longrightarrow> k \<le> n \<Longrightarrow> n < 5 \<Longrightarrow>
   \<forall>m. k \<le> m \<and> m < n \<longrightarrow> failed_attempt (answer run bc k m rt) \<Longrightarrow>
   answer run bc k n rt = CmdOutputObservation 0 c \<Longrightarrow>
   res = Inr (Some (py_strip c)) \<and> length (attempts evs) = Suc n - k
   \<and> rt' = runtime_before run bc k (Suc n) rt"
proof (induction "n - k" arbitrary: k rt evs res rt')
  case 0
  then have kn: "k = n" by simp
  obtain obs rt1 where r: "run rt (diff_action bc k) = (obs, rt1)"
    by (cases "run rt (diff_action bc k)")
  with "0.prems"(5) kn have obs: "obs = CmdOutputObservation 0 c" by (simp add: answer_start)
  from "0.prems"(3) kn have "k < 5" by simp
  then have "diff_loop run bc k rt =
     (Inr (Some (py_strip c)), rt1, [Ran (diff_action bc k) (CmdOutputObservation 0 c)])"
    using r obs diff_loop_zero [of k run rt bc c rt1] by simp
  with "0.prems"(1) kn r show ?case by (simp add: runtime_before_Suc)
next
  case (Suc d)
  then have kn: "k < n" by simp
  with Suc.prems(3) have k5: "k < 5" by simp
  obtain obs rt1 where r: "run rt (diff_action bc k) = (obs, rt1)"
    by (cases "run rt (diff_action bc k)")
  from Suc.prems(4) kn have "failed_attempt (answer run bc k k rt)" by simp
  with r have f: "failed_attempt obs" by (simp add: answer_start)
  obtain r2 rt2 evs2 where d2: "diff_loop run bc (Suc k) rt1 = (r2, rt2, evs2)"
    by (cases "diff_loop run bc (Suc k) rt1")
  from diff_loop_retry [of k run rt bc obs rt1 r2 rt2 evs2] k5 r f d2 Suc.prems(1)
  have eq: "res = r2" "rt' = rt2" "evs = Ran (diff_action bc k) obs # Slept 10 # evs2"
    by simp_all
  have 1: "d = n - Suc k" using Suc.hyps(2) by simp
  have 2: "Suc k \<le> n" using kn by simp
  have 3: "\<forall>m. Suc k \<le> m \<and> m < n \<longrightarrow> failed_attempt (answer run bc (Suc k) m rt1)"
  proof (intro allI impI)
    fix m assume m: "Suc k \<le> m \<and> m < n"
    then have "k < m" by simp
    then have "answer run bc k m rt = answer run bc (Suc k) m rt1"
      using r by (rule answer_step)
    moreover from m have "k \<le> m \<and> m < n" by simp
    with Suc.prems(4) have "failed_attempt (answer run bc k m rt)" by blast
    ultimately show "failed_attempt (answer run bc (Suc k) m rt1)"
      by simp
  qed
  have "answer run bc k n rt = answer run bc (Suc k) n rt1"
    using kn r by (rule answer_step)
  with Suc.prems(5) have 4: "answer run bc (Suc k) n rt1 = CmdOutputObservation 0 c"
    by simp
  have 5: "runtime_before run bc k (Suc n) rt = runtime_before run bc (Suc k) (Suc n) rt1"
    using kn r by (intro runtime_before_step) simp_all
  from Suc.hyps(1) [OF 1 d2 2 Suc.prems(3) 3 4] eq kn 5
  show ?case by (simp add: Suc_diff_le)
qed

lemma diff_loop_all_failed:
  "diff_loop run bc k rt = (res, rt', evs) \<Longrightarrow> k \<le> 5 \<Longrightarrow>
   \<forall>m. k \<le> m \<and> m < 5 \<longrightarrow> failed_attempt (answer run bc k m rt) \<Longrightarrow>
   res = Inr None \<and> length (attempts evs) = 5 - k \<and> rt' = runtime_before run bc k 5 rt"
proof (induction "5 - k" arbitrary: k rt evs res rt')
  case 0
  with "0.prems"(2) have k5: "k = 5" by simp
  then have "diff_loop run bc k rt = (Inr None, rt, [])"
    using diff_loop_done [of k run bc rt] by simp
  with "0.prems"(1) k5 show ?case by simp
next
  case (Suc d)
  then have k5: "k < 5" by simp
  obtain obs rt1 where r: "run rt (diff_action bc k) = (obs, rt1)"
    by (cases "run rt (diff_action bc k)")
  from Suc.prems(3) k5 have "failed_attempt (answer run bc k k rt)" by simp
  with r have f: "failed_attempt obs" by (simp add: answer_start)
  obtain r2 rt2 evs2 where d2: "diff_loop run bc (Suc k) rt1 = (r2, rt2, evs2)"
    by (cases "diff_loop run bc (Suc k) rt1")
  from diff_loop_retry [of k run rt bc obs rt1 r2 rt2 evs2] k5 r f d2 Suc.prems(1)
  have eq: "res = r2" "rt' = rt2" "evs = Ran (diff_action bc k) obs # Slept 10 # evs2"
    by simp_all
  have 1: "d = 5 - Suc k" using Suc.hyps(2) by simp
  have 2: "Suc k \<le> 5" using k5 by simp
  have 3: "\<forall>m. Suc k \<le> m \<and> m < 5 \<longrightarrow> failed_attempt (answer run bc (Suc k) m rt1)"
  proof (intro allI impI)
    fix m assume m: "Suc k \<le> m \<and> m < 5"
    then have "k < m" by simp
    then have "answer run bc k m rt = answer run bc (Suc k) m rt1"
      using r by (rule answer_step)
    moreover from m have "k \<le> m \<and> m < 5" by simp
    with Suc.prems(3) have "failed_attempt (answer run bc k m rt)" by blast
    ultimately show "failed_attempt (answer run bc (Suc k) m rt1)"
      by simp
  qed
  have 5: "runtime_before run bc k 5 rt = runtime_before run bc (Suc k) 5 rt1"
    using k5 r by (rule runtime_before_step)
  from Suc.hyps(1) [OF 1 d2 2 3] eq k5 5
  show ?case by (simp add: Suc_diff_Suc)
qed

subsection \<open>The retry protocol of the diff step\<close>

text \<open>
  Two sandbox stubs: one whose diff command always ends with exit code 128, for a
  run that uses up every attempt, and one that answers the first attempt with an
  error observation, the second with exit code 1 and the third with exit code 0
  and a diff surrounded by whitespace.
\<close>

definition dead_runtime :: "unit run_action" where
  "dead_runtime rt a = (CmdOutputObservation 128 ''fatal: bad revision'', rt)"

lemma dead_run:
  "diff_loop dead_runtime ''abc'' 0 () =
     (Inr None, (),
      [Ran (diff_action ''abc'' 0) (CmdOutputObservation 128 ''fatal: bad revision''), Slept 10,
       Ran (diff_action ''abc'' 1) (CmdOutputObservation 128 ''fatal: bad revision''), Slept 10,
       Ran (diff_action ''abc'' 2) (CmdOutputObservation 128 ''fatal: bad revision''), Slept 10,
       Ran (diff_action ''abc'' 3) (CmdOutputObservation 128 ''fatal: bad revision''), Slept 10,
       Ran (diff_action ''abc'' 4) (CmdOutputObservation 128 ''fatal: bad revision''), Slept 10])"
  by (simp add: diff_loop.simps diff_action_def dead_runtime_def)

lemma dead_answers: "answer dead_runtime bc 0 m () = CmdOutputObservation 128 ''fatal: bad revision''"
  by (simp add: answer_def dead_runtime_def)

definition flaky_output :: string where
  "flaky_output = [CHR 0x20, CHR 0x0A] @ ''diff --git a/f b/f'' @ [CHR 0x0A]"

definition flaky_runtime :: "nat run_action" where
  "flaky_runtime rt a =
     (if rt = 0 then ErrorObservation ''timed out''
      else if rt = 1 then CmdOutputObservation 1 ''busy''
      else CmdOutputObservation 0 flaky_output, Suc rt)"

lemma py_strip_flaky_output: "py_strip flaky_output = ''diff --git a/f b/f''"
  by code_simp

lemma flaky_run:
  "diff_loop flaky_runtime ''abc'' 0 0 =
     (Inr (Some ''diff --git a/f b/f''), 3,
      [Ran (diff_action ''abc'' 0) (ErrorObservation ''timed out''), Slept 10,
       Ran (diff_action ''abc'' 1) (CmdOutputObservation 1 ''busy''), Slept 10,
       Ran (diff_action ''abc'' 2) (CmdOutputObservation 0 flaky_output)])"
  by (simp add: diff_loop.simps diff_action_def flaky_runtime_def py_strip_flaky_output)

lemma flaky_answers:
  "answer flaky_runtime ''abc'' 0 0 0 = ErrorObservation ''timed out''"
  "answer flaky_runtime ''abc'' 0 1 0 = CmdOutputObservation 1 ''busy''"
  "answer flaky_runtime ''abc'' 0 2 0 = CmdOutputObservation 0 flaky_output"
  by (simp_all add: answer_def runtime_before_def flaky_runtime_def upt_rec)

text \<open>
  C3. The diff step of the outcome extractor, run from the counter at 0 on any
  runtime \<open>run\<close>: it makes at most 5 attempts; attempt \<open>n\<close> (from 0) is the diff
  command against the base commit with timeout \<open>600 + 100 * n\<close>, and the
  observation recorded for it is what \<open>run\<close> answers to that command after the
  attempts before it; every failed attempt (non-zero exit code or error
  observation) is directly followed by a sleep of 10 seconds; an attempt with exit
  code 0 is the last event and its stripped output is the patch; when the first
  attempt that \<open>run\<close> answers with exit code 0 is attempt \<open>n < 5\<close>, the attempts
  before it having failed, the result is the stripped output of that answer,
  exactly \<open>n + 1\<close> attempts were made and the runtime is as those attempts left
  it; and when \<open>run\<close> fails all of the attempts 0, ..., 4, there were 5 of them and
  the result is the null patch, not an exception.
\<close>

theorem diff_step_retry_protocol:
  assumes "diff_loop run base_commit 0 rt = (res, rt', evs)"
  shows "length (attempts evs) \<le> 5
    \<and> (\<forall>n < length (attempts evs).
          attempts evs ! n = (diff_action base_commit n, answer run base_commit 0 n rt)
          \<and> timeout (fst (attempts evs ! n)) = Some (600 + 100 * int n))
    \<and> (\<forall>i a obs. i < length evs \<and> evs ! i = Ran a obs \<and> failed_attempt obs
          \<longrightarrow> Suc i < length evs \<and> evs ! Suc i = Slept 10)
    \<and> (\<forall>i a c. i < length evs \<and> evs ! i = Ran a (CmdOutputObservation 0 c)
          \<longrightarrow> Suc i = length evs \<and> res = Inr (Some (py_strip c)))
    \<and> (\<forall>n c. n < 5 \<and> (\<forall>m < n. failed_attempt (answer run base_commit 0 m rt))
              \<and> answer run base_commit 0 n rt = CmdOutputObservation 0 c
          \<longrightarrow> res = Inr (Some (py_strip c)) \<and> length (attempts evs) = Suc n
              \<and> rt' = runtime_before run base_commit 0 (Suc n) rt)
    \<and> ((\<forall>m < 5. failed_attempt (answer run base_commit 0 m rt))
          \<longrightarrow> res = Inr None \<and> length (attempts evs) = 5
              \<and> rt' = runtime_before run base_commit 0 5 rt)"
proof -
  have a: "length (attempts evs) \<le> 5"
    using diff_loop_attempts_le [OF assms] by simp
  have b: "\<forall>n < length (attempts evs).
          attempts evs ! n = (diff_action base_commit n, answer run base_commit 0 n rt)
          \<and> timeout (fst (attempts evs ! n)) = Some (600 + 100 * int n)"
    using diff_loop_nth_answer [OF assms] by (simp add: diff_action_def)
  have c: "\<forall>i a obs. i < length evs \<and> evs ! i = Ran a obs \<and> failed_attempt obs
          \<longrightarrow> Suc i < length evs \<and> evs ! Suc i = Slept 10"
    using diff_loop_backoff [OF assms] by blast
  have d: "\<forall>i a c. i < length evs \<and> evs ! i = Ran a (CmdOutputObservation 0 c)
          \<longrightarrow> Suc i = length evs \<and> res = Inr (Some (py_strip c))"
    using diff_loop_zero_exit [OF assms] by blast
  have e: "\<forall>n c. n < 5 \<and> (\<forall>m < n. failed_attempt (answer run base_commit 0 m rt))
              \<and> answer run base_commit 0 n rt = CmdOutputObservation 0 c
          \<longrightarrow> res = Inr (Some (py_strip c)) \<and> length (attempts evs) = Suc n
              \<and> rt' = runtime_before run base_commit 0 (Suc n) rt"
  proof (intro allI impI)
    fix n c
    assume h: "n < 5 \<and> (\<forall>m < n. failed_attempt (answer run base_commit 0 m rt))
              \<and> answer run base_commit 0 n rt = CmdOutputObservation 0 c"
    then have "\<forall>m. 0 \<le> m \<and> m < n \<longrightarrow> failed_attempt (answer run base_commit 0 m rt)"
      by simp
    with h diff_loop_first_zero [of run base_commit 0 rt res rt' evs n c] assms
    show "res = Inr (Some (py_strip c)) \<and> length (attempts evs) = Suc n
              \<and> rt' = runtime_before run base_commit 0 (Suc n) rt"
      by simp
  qed
  have f: "(\<forall>m < 5. failed_attempt (answer run base_commit 0 m rt))
          \<longrightarrow> res = Inr None \<and> length (attempts evs) = 5
              \<and> rt' = runtime_before run base_commit 0 5 rt"
  proof
    assume "\<forall>m < 5. failed_attempt (answer run base_commit 0 m rt)"
    then have "\<forall>m. 0 \<le> m \<and> m < 5 \<longrightarrow> failed_attempt (answer run base_commit 0 m rt)"
      by simp
    with diff_loop_all_failed [of run base_commit 0 rt res rt' evs] assms
    show "res = Inr None \<and> length (attempts evs) = 5
              \<and> rt' = runtime_before run base_commit 0 5 rt"
      by simp
  qed
  from a b c d e f show ?thesis by blast
qed

theorem diff_step_retry_protocol_witness:
  "diff_loop flaky_runtime ''abc'' 0 0 =
     (Inr (Some ''diff --git a/f b/f''), 3,
      [Ran (diff_action ''abc'' 0) (ErrorObservation ''timed out''), Slept 10,
       Ran (diff_action ''abc'' 1) (CmdOutputObservation 1 ''busy''), Slept 10,
       Ran (diff_action ''abc'' 2) (CmdOutputObservation 0 flaky_output)])
   \<and> failed_attempt (answer flaky_runtime ''abc'' 0 0 0)
   \<and> failed_attempt (answer flaky_runtime ''abc'' 0 1 0)
   \<and> answer flaky_runtime ''abc'' 0 2 0 = CmdOutputObservation 0 flaky_output
   \<and> Inr (Some ''diff --git a/f b/f'') = (Inr (Some (py_strip flaky_output)) :: error + string option)
   \<and> runtime_before flaky_runtime ''abc'' 0 3 0 = 3
   \<and> timeout (diff_action ''abc'' 2) = Some 800
   \<and> diff_loop dead_runtime ''abc'' 0 () =
     (Inr None, (),
      [Ran (diff_action ''abc'' 0) (CmdOutputObservation 128 ''fatal: bad revision''), Slept 10,
       Ran (diff_action ''abc'' 1) (CmdOutputObservation 128 ''fatal: bad revision''), Slept 10,
       Ran (diff_action ''abc'' 2) (CmdOutputObservation 128 ''fatal: bad revision''), Slept 10,
       Ran (diff_action ''abc'' 3) (CmdOutputObservation 128 ''fatal: bad revision''), Slept 10,
       Ran (diff_action ''abc'' 4) (CmdOutputObservation 128 ''fatal: bad revision''), Slept 10])
   \<and> failed_attempt (answer dead_runtime ''abc'' 0 4 ())
   \<and> runtime_before dead_runtime ''abc'' 0 5 () = ()
   \<and> timeout (diff_action ''abc'' 4) = Some 1000"
proof -
  note flaky = diff_step_retry_protocol [OF flaky_run]
  note dead = diff_step_retry_protocol [OF dead_run]
  have ff: "\<forall>m < 2. failed_attempt (answer flaky_runtime ''abc'' 0 m 0)"
    using flaky_answers by (simp add: less_2_cases_iff)
  have a2: "answer flaky_runtime ''abc'' 0 2 0 = CmdOutputObservation 0 flaky_output"
    by (rule flaky_answers)
  have lt: "(2::nat) < 5" by simp
  from flaky have "2 < (5::nat) \<and> (\<forall>m < 2. failed_attempt (answer flaky_runtime ''abc'' 0 m 0))
        \<and> answer flaky_runtime ''abc'' 0 2 0 = CmdOutputObservation 0 flaky_output
     \<longrightarrow> Inr (Some ''diff --git a/f b/f'') = (Inr (Some (py_strip flaky_output)) :: error + string option)
        \<and> (3::nat) = runtime_before flaky_runtime ''abc'' 0 (Suc 2) 0"
    by blast
  with lt ff a2
  have r: "Inr (Some ''diff --git a/f b/f'') = (Inr (Some (py_strip flaky_output)) :: error + string option)"
    "(3::nat) = runtime_before flaky_runtime ''abc'' 0 (Suc 2) 0"
    by blast+
  from r(2) [symmetric] have r3: "runtime_before flaky_runtime ''abc'' 0 3 0 = 3" by simp
  note 1 = r(1) r3
  have 2: "timeout (diff_action ''abc'' 2) = Some 800" "timeout (diff_action ''abc'' 4) = Some 1000"
    by (simp_all add: diff_action_def)
  have df: "\<forall>m < 5. failed_attempt (answer dead_runtime ''abc'' 0 m ())"
    by (simp add: dead_answers)
  from dead have "(\<forall>m < 5. failed_attempt (answer dead_runtime ''abc'' 0 m ()))
      \<longrightarrow> (Inr None :: error + string option) = Inr None
        \<and> () = runtime_before dead_runtime ''abc'' 0 5 ()"
    by blast
  with df have 3: "() = runtime_before dead_runtime ''abc'' 0 5 ()" by blast
  from 1 2 3 flaky_answers show ?thesis
    by (simp add: flaky_run dead_run dead_answers)
qed

subsection \<open>The whole of \<open>complete_runtime\<close>\<close>

lemma run_checked_shape:
  assumes "run_checked run cmd msg rt = (r, rt1, evs)"
  obtains obs where "evs = [Ran (setup_action cmd) obs]"
    "run rt (setup_action cmd) = (obs, rt1)"
    "r = Inr () \<longleftrightarrow> (\<exists>c. obs = CmdOutputObservation 0 c)"
proof -
  obtain obs rt2 where o: "run rt (setup_action cmd) = (obs, rt2)"
    by (cases "run rt (setup_action cmd)")
  with assms have "evs = [Ran (setup_action cmd) obs]" "rt2 = rt1"
    by (auto simp: run_checked_def setup_action_def Let_def)
  moreover from assms o have "r = Inr () \<longleftrightarrow> (\<exists>c. obs = CmdOutputObservation 0 c)"
    by (cases obs) (auto simp: run_checked_def setup_action_def Let_def split: if_splits)
  ultimately show ?thesis using o that by blast
qed

text \<open>
  A setup event runs one of the four setup commands, with no timeout of its own;
  the diff attempts always carry one. That tells the two kinds of event apart in
  a trace.
\<close>

definition setup_commands :: "string list" where
  \<open>setup_commands =
     [''cd /workspace'', ''git config --global core.pager ""'',
      ''git config --global --add safe.directory /workspace'', ''git add -A'']\<close>

definition setup_event :: "event \<Rightarrow> bool" where
  "setup_event ev =
     (case ev of
        Ran a obs \<Rightarrow> timeout a = None \<and> command a \<in> set setup_commands
      | _ \<Rightarrow> False)"

lemma and_then_shape:
  assumes "and_then m f = (res, rt', evs)"
  obtains (raised) e where "m = (Inl e, rt', evs)" "res = Inl e"
  | (went_on) x rt1 evs1 evs2 where "m = (Inr x, rt1, evs1)" "f x rt1 = (res, rt', evs2)"
      "evs = evs1 @ evs2"
proof (cases m)
  case (fields r rt1 evs1)
  show ?thesis
  proof (cases r)
    case (Inl e)
    with fields assms show ?thesis by (auto simp: and_then_def intro: raised)
  next
    case (Inr x)
    obtain r2 rt2 evs2 where "f x rt1 = (r2, rt2, evs2)" by (cases "f x rt1")
    with Inr fields assms show ?thesis by (auto simp: and_then_def intro: went_on)
  qed
qed

lemma complete_runtime_shape:
  assumes "complete_runtime run rt bc = (res, rt', evs)"
  obtains (setup_failed) e where "res = Inl e" "\<forall>ev \<in> set evs. setup_event ev"
  | (diffed) pre rt4 devs where "evs = pre @ devs" "length pre = 4"
      "\<forall>ev \<in> set pre. setup_event ev" "diff_loop run bc 0 rt4 = (res, rt', devs)"
proof -
  from assms [unfolded complete_runtime_def] show ?thesis
  proof (cases rule: and_then_shape)
    case (raised e)
    from raised(1) show ?thesis
      by (cases rule: run_checked_shape) (auto intro!: setup_failed [OF raised(2)] simp: setup_event_def setup_action_def setup_commands_def)
  next
    case w1: (went_on x1 rt1 evs1 evs2)
    from w1(1) have s1: "\<forall>ev \<in> set evs1. setup_event ev" "length evs1 = 1"
      by (cases rule: run_checked_shape, auto simp: setup_event_def setup_action_def setup_commands_def)+
    from w1(2) show ?thesis
    proof (cases rule: and_then_shape)
      case (raised e)
      from raised(1) have "\<forall>ev \<in> set evs2. setup_event ev"
        by (cases rule: run_checked_shape) (auto simp: setup_event_def setup_action_def setup_commands_def)
      with s1 w1(3) raised(2) show ?thesis by (auto intro!: setup_failed)
    next
      case w2: (went_on x2 rt2 evs3 evs4)
      from w2(1) have s2: "\<forall>ev \<in> set evs3. setup_event ev" "length evs3 = 1"
        by (cases rule: run_checked_shape, auto simp: setup_event_def setup_action_def setup_commands_def)+
      from w2(2) show ?thesis
      proof (cases rule: and_then_shape)
        case (raised e)
        from raised(1) have "\<forall>ev \<in> set evs4. setup_event ev"
          by (cases rule: run_checked_shape) (auto simp: setup_event_def setup_action_def setup_commands_def)
        with s1 s2 w1(3) w2(3) raised(2) show ?thesis by (auto intro!: setup_failed)
      next
        case w3: (went_on x3 rt3 evs5 evs6)
        from w3(1) have s3: "\<forall>ev \<in> set evs5. setup_event ev" "length evs5 = 1"
          by (cases rule: run_checked_shape, auto simp: setup_event_def setup_action_def setup_commands_def)+
        from w3(2) show ?thesis
        proof (cases rule: and_then_shape)
          case (raised e)
          from raised(1) have "\<forall>ev \<in> set evs6. setup_event ev"
            by (cases rule: run_checked_shape) (auto simp: setup_event_def setup_action_def setup_commands_def)
          with s1 s2 s3 w1(3) w2(3) w3(3) raised(2) show ?thesis by (auto intro!: setup_failed)
        next
          case w4: (went_on x4 rt4 evs7 evs8)
          from w4(1) have s4: "\<forall>ev \<in> set evs7. setup_event ev" "length evs7 = 1"
            by (cases rule: run_checked_shape, auto simp: setup_event_def setup_action_def setup_commands_def)+
          have "evs = (evs1 @ evs3 @ evs5 @ evs7) @ evs8"
            using w1(3) w2(3) w3(3) w4(3) by simp
          moreover have "length (evs1 @ evs3 @ evs5 @ evs7) = 4"
            using s1 s2 s3 s4 by simp
          moreover have "\<forall>ev \<in> set (evs1 @ evs3 @ evs5 @ evs7). setup_event ev"
            using s1 s2 s3 s4 by auto
          ultimately show ?thesis using w4(2) by (rule diffed)
        qed
      qed
    qed
  qed
qed

text \<open>
  A sandbox stub on which every command ends with exit code 0 and prints
  nothing: the agent changed no file.
\<close>

definition clean_runtime :: "unit run_action" where
  "clean_runtime rt a = (CmdOutputObservation 0 '''', rt)"

lemma clean_run:
  \<open>complete_runtime clean_runtime () ''abc'' =
     (Inr (Some ''''), (),
      [Ran (setup_action ''cd /workspace'') (CmdOutputObservation 0 ''''),
       Ran (setup_action ''git config --global core.pager ""'') (CmdOutputObservation 0 ''''),
       Ran (setup_action ''git config --global --add safe.directory /workspace'')
         (CmdOutputObservation 0 ''''),
       Ran (setup_action ''git add -A'') (CmdOutputObservation 0 ''''),
       Ran (diff_action ''abc'' 0) (CmdOutputObservation 0 '''')])\<close>
  by (simp add: complete_runtime_def and_then_def run_checked_def diff_loop.simps
      clean_runtime_def setup_action_def py_strip_empty)

text \<open>
  C6. An empty diff is not a null patch: when, in a run of \<open>complete_runtime\<close>,
  some diff attempt (whichever its number \<open>n\<close>) ends with exit code 0 and empty
  output, the extractor returns the patch \<open>""\<close> (\<open>Some []\<close>), which differs from
  the null patch \<open>None\<close> returned when extraction never converged.
\<close>

theorem empty_diff_is_not_null:
  assumes "complete_runtime run rt base_commit = (res, rt', evs)"
    and "i < length evs"
    and "evs ! i = Ran (diff_action base_commit n) (CmdOutputObservation 0 '''')"
  shows "res = Inr (Some '''') \<and> res \<noteq> Inr None"
  using assms(1)
proof (cases rule: complete_runtime_shape)
  case (setup_failed e)
  from setup_failed(2) assms(2) have "setup_event (evs ! i)" by simp
  with assms(3) show ?thesis by (simp add: setup_event_def diff_action_def)
next
  case (diffed pre rt4 devs)
  have "\<not> i < 4"
  proof
    assume "i < 4"
    with diffed(1,2) have "evs ! i = pre ! i" "pre ! i \<in> set pre"
      by (simp_all add: nth_append)
    with diffed(3) have "setup_event (evs ! i)" by simp
    with assms(3) show False by (simp add: setup_event_def diff_action_def)
  qed
  with diffed(1,2) assms(2,3)
  have "i - 4 < length devs"
    "devs ! (i - 4) = Ran (diff_action base_commit n) (CmdOutputObservation 0 '''')"
    by (auto simp: nth_append)
  from diff_loop_zero_exit [OF diffed(4) this] show ?thesis
    by (simp add: py_strip_empty)
qed

theorem empty_diff_is_not_null_witness:
  "fst (complete_runtime clean_runtime () ''abc'') = Inr (Some '''')
   \<and> fst (complete_runtime clean_runtime () ''abc'') \<noteq> Inr None
   \<and> snd (snd (complete_runtime clean_runtime () ''abc'')) ! 4
       = Ran (diff_action ''abc'' 0) (CmdOutputObservation 0 '''')"
  using empty_diff_is_not_null [OF clean_run, of 4 0] clean_run
  by simp

section \<open>JSON values\<close>

text \<open>
  \<open>json.loads\<close> belongs to Python's standard library. The model takes it as a
  parameter \<open>json_loads\<close> of type \<open>string \<Rightarrow> json option\<close>, where \<open>None\<close> stands for
  \<open>json.JSONDecodeError\<close>, and works on the values it returns: \<open>None\<close>, booleans,
  integers, strings, lists and dictionaries (numbers with a fraction or an
  exponent are not modelled). A dictionary is the list of its items, with
  distinct keys.

  \<open>py_getitem v k\<close> is the subscript \<open>v[k]\<close> with a string key: a dictionary
  raises \<open>KeyError\<close> for a key it does not have, every other value raises
  \<open>TypeError\<close>. \<open>hashable\<close> says which values a Python set accepts.
\<close>

datatype json =
    JNull
  | JBool bool
  | JInt int
  | JString string
  | JArray "json list"
  | JObject "(string \<times> json) list"

fun py_getitem :: "json \<Rightarrow> string \<Rightarrow> error + json" where
  "py_getitem (JObject kvs) k =
     (case map_of kvs k of None \<Rightarrow> Inl (KeyError k) | Some v \<Rightarrow> Inr v)"
| "py_getitem (JArray xs) k =
     Inl (TypeError ''list indices must be integers or slices, not str'')"
| "py_getitem (JString s) k = Inl (TypeError ''string indices must be integers'')"
| "py_getitem (JInt i) k = Inl (TypeError ''int object is not subscriptable'')"
| "py_getitem (JBool b) k = Inl (TypeError ''bool object is not subscriptable'')"
| "py_getitem JNull k = Inl (TypeError ''NoneType object is not subscriptable'')"

fun hashable :: "json \<Rightarrow> bool" where
  "hashable (JArray xs) = False"
| "hashable (JObject kvs) = False"
| "hashable v = True"

section \<open>Issues, agent state and the record written for an issue\<close>

text \<open>
  \<open>GithubIssue\<close>, \<open>LLMConfig\<close>, \<open>State\<close>, the events of its history and
  \<open>ResolverOutput\<close> are classes the program imports; the records below have the
  fields the program reads or sets. Of an event the program reads its \<open>message\<close>
  and the dictionary \<open>dataclasses.asdict\<close> makes of it. \<open>State.metrics\<close> is the
  value of \<open>state.metrics.get() if state.metrics else None\<close>.
\<close>

record GithubIssue =
  owner :: string
  repo :: string
  number :: int
  title :: string
  body :: string

record LLMConfig =
  model :: string
  api_key :: string

record Event =
  message :: string
  asdict :: json

record State =
  history :: "Event list"
  metrics :: "json option"
  last_error :: "string option"

record ResolverOutput =
  issue :: GithubIssue
  instruction :: string
  base_commit :: string
  git_patch :: "string option"
  history :: "json list"
  metrics :: "json option"
  success :: json
  success_explanation :: json
  error :: "string option"

section \<open>The success classifier\<close>

definition nl :: string where
  "nl = [CHR 0x0A]"

definition classifier_prompt :: "string \<Rightarrow> string \<Rightarrow> string" where
  "classifier_prompt issue_body last_message =
     ''Given the following issue description and the last message from an AI agent attempting to fix it, determine if the issue has been successfully resolved.''
     @ nl @ nl @ ''Issue description:'' @ nl @ issue_body
     @ nl @ nl @ ''Last message from AI agent:'' @ nl @ last_message
     @ nl @ nl @ ''Has the issue been successfully resolved? Answer in JSON in the format {success: bool, explanation: str}.''"

text \<open>
  The inference service is the parameter \<open>completion\<close>: called with the model,
  the prompt (sent as the one user message) and the API key, it raises or gives
  \<open>response.choices[0].message.content\<close>, which may be \<open>None\<close>.
  \<^verbatim>\<open>
  def guess_success(issue, history, llm_config):
      last_message = history.get_events_as_list()[-1].message
      prompt = f"""..."""
      response = completion(model=llm_config.model,
                            messages=[{"role": "user", "content": prompt}],
                            api_key=llm_config.api_key)
      answer = response.choices[0].message.content.strip()
      try:
          json_answer = json.loads(answer)
          return json_answer['success'], json_answer['explanation']
      except json.JSONDecodeError:
          return False, f"Failed to decode JSON from LLM response: {answer}"
  \<close>
  The function returns the two values as they are in the answer, whatever their
  types; \<open>False\<close> is \<open>JBool False\<close>. Only \<open>json.JSONDecodeError\<close> is caught.
\<close>

type_synonym completion_fn = "string \<Rightarrow> string \<Rightarrow> string \<Rightarrow> error + string option"

definition guess_success ::
  "(string \<Rightarrow> json option) \<Rightarrow> completion_fn \<Rightarrow> GithubIssue \<Rightarrow> Event list \<Rightarrow> LLMConfig
   \<Rightarrow> (error + json \<times> json) \<times> event list" where
  "guess_success json_loads completion issue' history' llm_config =
     (case history' of
        [] \<Rightarrow> (Inl (IndexError ''list index out of range''), [])
      | _ # _ \<Rightarrow>
          (let last_message = message (last history');
               prompt = classifier_prompt (body issue') last_message;
               asked = [Asked (model llm_config) prompt (api_key llm_config)]
           in case completion (model llm_config) prompt (api_key llm_config) of
                Inl e \<Rightarrow> (Inl e, asked)
              | Inr None \<Rightarrow> (Inl (AttributeError ''strip''), asked)
              | Inr (Some text) \<Rightarrow>
                  (let answer = py_strip text
                   in case json_loads answer of
                        None \<Rightarrow>
                          (Inr (JBool False,
                                JString (''Failed to decode JSON from LLM response: '' @ answer)),
                           asked)
                      | Some json_answer \<Rightarrow>
                          (case py_getitem json_answer ''success'' of
                             Inl e \<Rightarrow> (Inl e, asked)
                           | Inr s \<Rightarrow>
                               (case py_getitem json_answer ''explanation'' of
                                  Inl e \<Rightarrow> (Inl e, asked)
                                | Inr x \<Rightarrow> (Inr (s, x), asked))))))"

section \<open>The ledger scan\<close>

text \<open>
  \<^verbatim>\<open>
  finished_numbers = set()
  if os.path.exists(output_file):
      with open(output_file, "r") as f:
          for line in f:
              data = json.loads(line)
              finished_numbers.add(data["number"])
  \<close>
  \<open>load_finished_numbers json_loads lines finished\<close> is the loop over the lines
  of the file, from the set collected so far.
\<close>

fun load_finished_numbers ::
  "(string \<Rightarrow> json option) \<Rightarrow> string list \<Rightarrow> json set \<Rightarrow> error + json set" where
  "load_finished_numbers json_loads [] finished_numbers = Inr finished_numbers"
| "load_finished_numbers json_loads (line # rest) finished_numbers =
     (case json_loads line of
        None \<Rightarrow> Inl (JSONDecodeError line)
      | Some data \<Rightarrow>
          (case py_getitem data ''number'' of
             Inl e \<Rightarrow> Inl e
           | Inr n \<Rightarrow>
               if hashable n
               then load_finished_numbers json_loads rest (insert n finished_numbers)
               else Inl (TypeError ''unhashable type'')))"

text \<open>
  \<open>issue.number in finished_numbers\<close> compares an integer with the values of the
  set as Python does: \<open>1 == True\<close> and \<open>0 == False\<close> hold, and an integer equals
  no string and not \<open>None\<close>.
\<close>

definition py_in :: "int \<Rightarrow> json set \<Rightarrow> bool" where
  "py_in n finished_numbers \<longleftrightarrow>
     JInt n \<in> finished_numbers
     \<or> (n = 1 \<and> JBool True \<in> finished_numbers)
     \<or> (n = 0 \<and> JBool False \<in> finished_numbers)"

section \<open>Properties of the classifier and of the ledger scan\<close>

subsection \<open>Stubs for concrete runs\<close>

text \<open>
  \<open>json_loads_stub\<close> is \<open>json.loads\<close> on the documents the concrete runs below
  parse; every other string they give it is not a JSON document (the one that
  occurs is a record cut off in the middle of a string). Lines are given without
  their line terminator, which \<open>json.loads\<close> skips.
\<close>

definition json_loads_stub :: "string \<Rightarrow> json option" where
  \<open>json_loads_stub =
     map_of
       [(''{"resolved": true}'', JObject [(''resolved'', JBool True)]),
        (''{"success": true, "explanation": "ok"}'',
           JObject [(''success'', JBool True), (''explanation'', JString ''ok'')]),
        (''{"number": 1}'', JObject [(''number'', JInt 1)]),
        (''{"number": 2, "patch": 7}'', JObject [(''number'', JInt 2), (''patch'', JInt 7)])]\<close>

lemma py_strip_answers:
  \<open>py_strip ''{"resolved": true}'' = ''{"resolved": true}''\<close>
  \<open>py_strip ''{"success": true, "explanation": "ok"}''
     = ''{"success": true, "explanation": "ok"}''\<close>
  by code_simp+

lemma py_strip_outputs:
  "py_strip ''diff --git a/f b/f'' = ''diff --git a/f b/f''"
  "py_strip ''0123abc'' = ''0123abc''"
  by code_simp+

definition issue1 :: GithubIssue where
  "issue1 = \<lparr>owner = ''o'', repo = ''r'', number = 1, title = ''Crash'', body = ''It crashes.''\<rparr>"

definition cfg1 :: LLMConfig where
  "cfg1 = \<lparr>model = ''m'', api_key = ''k''\<rparr>"

definition done_event :: Event where
  "done_event = \<lparr>message = ''All done.'', asdict = JObject [(''message'', JString ''All done.'')]\<rparr>"

definition first_event :: Event where
  "first_event = \<lparr>message = ''Starting.'', asdict = JObject [(''message'', JString ''Starting.'')]\<rparr>"

definition other_first_event :: Event where
  "other_first_event = \<lparr>message = ''Reading the code.'', asdict = JNull\<rparr>"

text \<open>
  An inference service that answers with a well-formed JSON object, but not one
  with the keys the prompt asked for.
\<close>

definition off_schema_oracle :: completion_fn where
  \<open>off_schema_oracle m p k = Inr (Some ''{"resolved": true}'')\<close>

subsection \<open>The classifier\<close>

text \<open>
  C10. \<open>guess_success\<close> reads only the last event of the history. With an empty
  history it raises \<open>IndexError\<close> and its trace is empty: the inference service
  was not called, whatever it would have answered. With a non-empty history the
  one call it makes carries the prompt built from the issue's body and the
  message of the last event; and two calls whose issues have the same body and
  whose histories end in events with the same message give the same result and
  the same trace, however the earlier events and the other fields differ.
\<close>

theorem guess_success_reads_last_event:
  "guess_success jl oracle iss [] cfg = (Inl (IndexError ''list index out of range''), [])
   \<and> (h \<noteq> [] \<longrightarrow>
        snd (guess_success jl oracle iss h cfg) =
          [Asked (model cfg) (classifier_prompt (body iss) (message (last h))) (api_key cfg)])
   \<and> (h1 \<noteq> [] \<and> h2 \<noteq> [] \<and> message (last h1) = message (last h2) \<and> body iss1 = body iss2
        \<longrightarrow> guess_success jl oracle iss1 h1 cfg = guess_success jl oracle iss2 h2 cfg)"
proof -
  have a: "guess_success jl oracle iss [] cfg = (Inl (IndexError ''list index out of range''), [])"
    by (simp add: guess_success_def)
  have b: "snd (guess_success jl oracle iss h cfg) =
          [Asked (model cfg) (classifier_prompt (body iss) (message (last h))) (api_key cfg)]"
    if "h \<noteq> []"
  proof -
    from that obtain e es where "h = e # es" by (cases h) auto
    then show ?thesis
      by (simp add: guess_success_def Let_def split: sum.split option.split)
  qed
  have c: "guess_success jl oracle iss1 h1 cfg = guess_success jl oracle iss2 h2 cfg"
    if "h1 \<noteq> []" "h2 \<noteq> []" "message (last h1) = message (last h2)" "body iss1 = body iss2"
  proof -
    from that obtain e1 es1 e2 es2 where h: "h1 = e1 # es1" "h2 = e2 # es2"
      by (cases h1; cases h2) auto
    have "message (last (e1 # es1)) = message (last (e2 # es2))"
      using that(3) h by simp
    with that(4) show ?thesis unfolding h
      by (simp add: guess_success_def Let_def del: last.simps)
  qed
  from a b c show ?thesis by blast
qed

theorem guess_success_reads_last_event_witness:
  "guess_success json_loads_stub off_schema_oracle issue1 [] cfg1
     = (Inl (IndexError ''list index out of range''), [])
   \<and> snd (guess_success json_loads_stub off_schema_oracle issue1 [first_event, done_event] cfg1)
     = [Asked ''m'' (classifier_prompt ''It crashes.'' ''All done.'') ''k'']
   \<and> guess_success json_loads_stub off_schema_oracle issue1 [first_event, done_event] cfg1
     = guess_success json_loads_stub off_schema_oracle issue1 [other_first_event, done_event] cfg1"
proof -
  have 1: "guess_success json_loads_stub off_schema_oracle issue1 [] cfg1
     = (Inl (IndexError ''list index out of range''), [])"
    using guess_success_reads_last_event
      [of json_loads_stub off_schema_oracle issue1 cfg1 "[]" "[]" "[]" issue1 issue1]
    by (rule conjunct1)
  have 2: "snd (guess_success json_loads_stub off_schema_oracle issue1
        [first_event, done_event] cfg1)
     = [Asked ''m'' (classifier_prompt ''It crashes.'' ''All done.'') ''k'']"
    using guess_success_reads_last_event
      [of json_loads_stub off_schema_oracle issue1 cfg1 "[first_event, done_event]"
          "[]" "[]" issue1 issue1]
    by (simp add: issue1_def cfg1_def done_event_def)
  have 3: "guess_success json_loads_stub off_schema_oracle issue1
        [first_event, done_event] cfg1
     = guess_success json_loads_stub off_schema_oracle issue1 [other_first_event, done_event] cfg1"
    using guess_success_reads_last_event
      [of json_loads_stub off_schema_oracle issue1 cfg1 "[]"
          "[first_event, done_event]" "[other_first_event, done_event]" issue1 issue1]
    by simp
  from 1 2 3 show ?thesis by (intro conjI)
qed

text \<open>
  C4. The classifier on an answer that is well-formed JSON but has no
  \<open>success\<close> key: \<open>json.loads\<close> succeeds, the subscript raises \<open>KeyError\<close>, and
  the \<open>except json.JSONDecodeError\<close> clause does not catch it. The call raises
  instead of returning \<open>(False, ...)\<close>.
\<close>

theorem guess_success_off_schema_raises:
  "guess_success json_loads_stub off_schema_oracle issue1 [done_event] cfg1 =
     (Inl (KeyError ''success''),
      [Asked ''m'' (classifier_prompt ''It crashes.'' ''All done.'') ''k''])"
  by (simp add: guess_success_def off_schema_oracle_def json_loads_stub_def issue1_def cfg1_def
      done_event_def py_strip_answers)

text \<open>
  The sibling path, for comparison: an answer that is not a JSON document at
  all is degraded to the verdict \<open>False\<close> with the raw text after a note, as
  the \<open>except\<close> clause says.
\<close>

lemma guess_success_non_json_degrades:
  assumes "h \<noteq> []"
    and "oracle (model cfg) (classifier_prompt (body iss) (message (last h))) (api_key cfg)
           = Inr (Some text)"
    and "jl (py_strip text) = None"
  shows "fst (guess_success jl oracle iss h cfg)
     = Inr (JBool False, JString (''Failed to decode JSON from LLM response: '' @ py_strip text))"
proof -
  from assms(1) obtain e es where h: "h = e # es" by (cases h) auto
  have "message (last (e # es)) = message (last h)" using h by simp
  with assms(2,3) show ?thesis
    unfolding h by (simp add: guess_success_def Let_def del: last.simps)
qed

subsection \<open>The ledger scan\<close>

text \<open>
  The identifier the scan reads from a line: what \<^verbatim>\<open>data["number"]\<close> finds in the
  object the whole line parses to, if it parses to an object that has it.
\<close>

definition number_of :: "(string \<Rightarrow> json option) \<Rightarrow> string \<Rightarrow> json option" where
  "number_of json_loads line =
     (case json_loads line of Some (JObject kvs) \<Rightarrow> map_of kvs ''number'' | _ \<Rightarrow> None)"

lemma scan_all_good:
  "\<forall>l \<in> set lines. \<exists>n. number_of jl l = Some n \<and> hashable n \<Longrightarrow>
   load_finished_numbers jl lines S =
     Inr (S \<union> {n. \<exists>l \<in> set lines. number_of jl l = Some n})"
proof (induction lines arbitrary: S)
  case Nil
  then show ?case by simp
next
  case (Cons l lines)
  from Cons.prems obtain n where n: "number_of jl l = Some n" "hashable n" by auto
  then obtain kvs where kvs: "jl l = Some (JObject kvs)" "map_of kvs ''number'' = Some n"
    by (auto simp: number_of_def split: option.splits json.splits)
  from Cons.prems have "\<forall>l \<in> set lines. \<exists>n. number_of jl l = Some n \<and> hashable n" by simp
  from Cons.IH [OF this, of "insert n S"] kvs n show ?case by auto
qed

lemma scan_bad_line:
  "l \<in> set lines \<Longrightarrow> jl l = None \<Longrightarrow> \<exists>e. load_finished_numbers jl lines S = Inl e"
proof (induction lines arbitrary: S)
  case Nil
  then show ?case by simp
next
  case (Cons x lines)
  show ?case
  proof (cases "x = l")
    case True
    with Cons.prems show ?thesis by simp
  next
    case False
    with Cons.prems have "l \<in> set lines" by simp
    from Cons.IH [OF this Cons.prems(2)] show ?thesis
      by (auto split: option.split sum.split)
  qed
qed

lemma scan_first_bad_line:
  "\<forall>l \<in> set good. \<exists>n. number_of jl l = Some n \<and> hashable n \<Longrightarrow> jl bad = None \<Longrightarrow>
   load_finished_numbers jl (good @ bad # rest) S = Inl (JSONDecodeError bad)"
proof (induction good arbitrary: S)
  case Nil
  then show ?case by simp
next
  case (Cons l good)
  from Cons.prems obtain n where n: "number_of jl l = Some n" "hashable n" by auto
  then obtain kvs where kvs: "jl l = Some (JObject kvs)" "map_of kvs ''number'' = Some n"
    by (auto simp: number_of_def split: option.splits json.splits)
  from Cons.prems have "\<forall>l \<in> set good. \<exists>n. number_of jl l = Some n \<and> hashable n" by simp
  from Cons.IH [OF this Cons.prems(2), of "insert n S"] kvs n show ?case by auto
qed

text \<open>
  C5, as stated, fails: a line with a valid identifier whose body is cut off
  after it is not a JSON document, \<open>json.loads\<close> raises on the whole line, and
  the scan ends with that exception instead of a set that holds the identifier.
\<close>

theorem scan_fails_on_corrupt_body:
  \<open>load_finished_numbers json_loads_stub [''{"number": 1, "title": "Cras''] {} =
     Inl (JSONDecodeError ''{"number": 1, "title": "Cras'')\<close>
  by (simp add: json_loads_stub_def)

text \<open>
  C5, amended. The scan parses each line as one whole JSON document and reads
  nothing of it but the identifier: when every line parses to an object from which
  the scan reads a hashable identifier, whatever else the object holds or lacks,
  the scan returns the set it started from together with exactly these
  identifiers; a line that is not a JSON document at all makes the scan raise; and
  when the lines before the first such line all carry an identifier, what it
  raises is the decode error of that line.
\<close>

theorem scan_takes_number_of_well_formed_lines:
  "((\<forall>l \<in> set lines. \<exists>n. number_of jl l = Some n \<and> hashable n) \<longrightarrow>
      load_finished_numbers jl lines S =
        Inr (S \<union> {n. \<exists>l \<in> set lines. number_of jl l = Some n}))
   \<and> ((\<exists>l \<in> set lines. jl l = None) \<longrightarrow> (\<exists>e. load_finished_numbers jl lines S = Inl e))
   \<and> (\<forall>good bad rest.
         lines = good @ bad # rest
         \<and> (\<forall>l \<in> set good. \<exists>n. number_of jl l = Some n \<and> hashable n)
         \<and> jl bad = None
         \<longrightarrow> load_finished_numbers jl lines S = Inl (JSONDecodeError bad))"
  using scan_all_good [of lines jl S] scan_bad_line [of _ lines jl S]
    scan_first_bad_line [of _ jl _ _ S]
  by blast

theorem scan_takes_number_of_well_formed_lines_witness:
  \<open>load_finished_numbers json_loads_stub [''{"number": 1}'', ''{"number": 2, "patch": 7}''] {}
     = Inr {JInt 1, JInt 2}
   \<and> number_of json_loads_stub ''{"number": 2, "patch": 7}'' = Some (JInt 2)
   \<and> json_loads_stub ''{"number": 1, "title": "Cras'' = None
   \<and> load_finished_numbers json_loads_stub
         [''{"number": 1}'', ''{"number": 1, "title": "Cras'', ''{"number": 2, "patch": 7}''] {}
       = Inl (JSONDecodeError ''{"number": 1, "title": "Cras'')\<close>
proof -
  have g: \<open>\<forall>l \<in> set [''{"number": 1}'', ''{"number": 2, "patch": 7}''].
             \<exists>n. number_of json_loads_stub l = Some n \<and> hashable n\<close>
    by (simp add: number_of_def json_loads_stub_def)
  have s: \<open>{n. \<exists>l \<in> set [''{"number": 1}'', ''{"number": 2, "patch": 7}''].
             number_of json_loads_stub l = Some n} = {JInt 1, JInt 2}\<close>
    by (auto simp: number_of_def json_loads_stub_def)
  from scan_takes_number_of_well_formed_lines
         [of \<open>[''{"number": 1}'', ''{"number": 2, "patch": 7}'']\<close> json_loads_stub "{}"] g s
  have 1: \<open>load_finished_numbers json_loads_stub
             [''{"number": 1}'', ''{"number": 2, "patch": 7}''] {} = Inr {JInt 1, JInt 2}\<close>
    by simp
  have n2: \<open>number_of json_loads_stub ''{"number": 2, "patch": 7}'' = Some (JInt 2)\<close>
    by (simp add: number_of_def json_loads_stub_def)
  have b: \<open>json_loads_stub ''{"number": 1, "title": "Cras'' = None\<close>
    by (simp add: json_loads_stub_def)
  have g1: \<open>\<forall>l \<in> set [''{"number": 1}''].
             \<exists>n. number_of json_loads_stub l = Some n \<and> hashable n\<close>
    by (simp add: number_of_def json_loads_stub_def)
  have sp: \<open>[''{"number": 1}'', ''{"number": 1, "title": "Cras'', ''{"number": 2, "patch": 7}'']
       = [''{"number": 1}''] @ ''{"number": 1, "title": "Cras'' # [''{"number": 2, "patch": 7}'']\<close>
    by simp
  from scan_takes_number_of_well_formed_lines
         [of \<open>[''{"number": 1}'', ''{"number": 1, "title": "Cras'', ''{"number": 2, "patch": 7}'']\<close>
             json_loads_stub "{}"]
  have \<open>[''{"number": 1}'', ''{"number": 1, "title": "Cras'', ''{"number": 2, "patch": 7}'']
       = [''{"number": 1}''] @ ''{"number": 1, "title": "Cras'' # [''{"number": 2, "patch": 7}'']
     \<and> (\<forall>l \<in> set [''{"number": 1}''].
             \<exists>n. number_of json_loads_stub l = Some n \<and> hashable n)
     \<and> json_loads_stub ''{"number": 1, "title": "Cras'' = None
     \<longrightarrow> load_finished_numbers json_loads_stub
         [''{"number": 1}'', ''{"number": 1, "title": "Cras'', ''{"number": 2, "patch": 7}''] {}
       = Inl (JSONDecodeError ''{"number": 1, "title": "Cras'')\<close>
    by blast
  with sp g1 b have 2: \<open>load_finished_numbers json_loads_stub
         [''{"number": 1}'', ''{"number": 1, "title": "Cras'', ''{"number": 2, "patch": 7}''] {}
       = Inl (JSONDecodeError ''{"number": 1, "title": "Cras'')\<close>
    by blast
  from 1 n2 b 2 show ?thesis by blast
qed

section \<open>The pipeline of one issue\<close>

text \<open>
  \<open>os.path.join\<close> on two POSIX paths, and the instruction text of
  \<open>get_instruction\<close>.
\<close>

definition path_join :: "string \<Rightarrow> string \<Rightarrow> string" where
  "path_join a b =
     (if b \<noteq> [] \<and> hd b = CHR ''/'' then b
      else if a = [] \<or> last a = CHR ''/'' then a @ b
      else a @ ''/'' @ b)"

definition get_instruction :: "GithubIssue \<Rightarrow> string" where
  "get_instruction issue' =
     ''Please fix the following issue for the repository in /workspace.'' @ nl
     @ ''Environment has been set up for you to start working. You may assume all necessary tools are installed.''
     @ nl @ nl @ ''# Problem Statement'' @ nl @ body issue' @ nl @ nl
     @ ''IMPORTANT: You should ONLY interact with the environment provided to you AND NEVER ASK FOR HUMAN HELP.''
     @ nl
     @ ''You should NOT modify any existing test case files. If needed, you can add new test cases in a NEW file to reproduce the issue.''
     @ nl @ ''You SHOULD INCLUDE PROPER INDENTATION in your edit commands.'' @ nl
     @ ''When you think you have fixed the issue through code changes, please run the following command: <execute_bash> exit </execute_bash>.''"

record SandboxConfig =
  runtime_container_image :: string
  enable_auto_lint :: bool
  use_host_network :: bool
  timeout :: int

record AppConfig =
  default_agent :: string
  runtime :: string
  max_budget_per_task :: int
  max_iterations :: int
  sandbox :: SandboxConfig
  workspace_base :: string
  workspace_mount_path :: string
  llm_config :: LLMConfig

text \<open>
  The configuration \<open>process_issue\<close> builds for the sandbox and the agent:
  \<open>AppConfig(...)\<close> followed by \<open>config.set_llm_config(llm_config)\<close>.
\<close>

definition app_config :: "int \<Rightarrow> string \<Rightarrow> string \<Rightarrow> LLMConfig \<Rightarrow> AppConfig" where
  "app_config max_iterations' runtime_container_image' workspace_base' llm_config' =
     \<lparr>default_agent = ''CodeActAgent'', runtime = ''eventstream'',
      max_budget_per_task = 4, max_iterations = max_iterations',
      sandbox = \<lparr>runtime_container_image = runtime_container_image',
                 enable_auto_lint = True, use_host_network = False, timeout = 300\<rparr>,
      workspace_base = workspace_base', workspace_mount_path = workspace_base',
      llm_config = llm_config'\<rparr>"

text \<open>
  Everything outside the program is one record \<open>env\<close>:
  \<^item> \<open>download_issues_from_github owner repo token\<close>: the issue listing, as the
    function of that name returns it after its request to the tracker, or the
    exception it raises;
  \<^item> \<open>check_output argv\<close>: \<open>subprocess.check_output\<close> of an argument list, decoded;
  \<^item> \<open>read_lines path\<close>: the lines of a file, \<open>None\<close> when \<open>os.path.exists\<close> is
    false;
  \<^item> \<open>path_exists\<close>, \<open>environ\<close>: \<open>os.path.exists\<close> and the process environment;
  \<^item> \<open>json_loads\<close>, \<open>abspath\<close>, \<open>copytree\<close> (\<open>None\<close> when it does not raise);
  \<^item> \<open>create_runtime config sid\<close>, \<open>run_action\<close> and \<open>run_controller\<close>: the sandbox
    and the agent, which works on the sandbox and returns its final state or
    \<open>None\<close>;
  \<^item> \<open>completion\<close>: the inference service.
\<close>

record 'r env =
  download_issues_from_github :: "string \<Rightarrow> string \<Rightarrow> string \<Rightarrow> error + GithubIssue list"
  check_output :: "string list \<Rightarrow> error + string"
  read_lines :: "string \<Rightarrow> string list option"
  path_exists :: "string \<Rightarrow> bool"
  environ :: "string \<Rightarrow> string option"
  json_loads :: "string \<Rightarrow> json option"
  abspath :: "string \<Rightarrow> string"
  copytree :: "string \<Rightarrow> string \<Rightarrow> error option"
  create_runtime :: "AppConfig \<Rightarrow> string \<Rightarrow> error + 'r"
  run_action :: "'r run_action"
  run_controller :: "AppConfig \<Rightarrow> string \<Rightarrow> 'r \<Rightarrow> (error + State option) \<times> 'r"
  completion :: completion_fn

text \<open>
  \<open>process_issue\<close>: copy the repository, create and initialise the sandbox, run
  the agent, extract the patch, classify, build the record. Each step that raises
  ends the pipeline with that exception; nothing in the function catches one.
  The value is the record or the exception, with the trace of the pipeline's own
  sandbox commands, sleeps and classifier call (what the agent does inside
  \<open>run_controller\<close> is not part of it). The \<open>error\<close> field of the record is
  \<open>state.last_error if state and state.last_error else None\<close>.
\<close>

definition process_issue ::
  "'r env \<Rightarrow> GithubIssue \<Rightarrow> string \<Rightarrow> int \<Rightarrow> LLMConfig \<Rightarrow> string \<Rightarrow> string \<Rightarrow> bool
   \<Rightarrow> (error + ResolverOutput) \<times> event list" where
  "process_issue env issue' base_commit' max_iterations' llm_config' output_dir' runtime_container_image' reset_logger =
     (let workspace_base' =
            abspath env
              (path_join (path_join output_dir' ''workspace'')
                 (''issue_'' @ str_int (number issue')))
      in case copytree env (path_join output_dir' ''repo'') workspace_base' of
           Some e \<Rightarrow> (Inl e, [])
         | None \<Rightarrow>
      (let config = app_config max_iterations' runtime_container_image' workspace_base'
                      llm_config'
       in case create_runtime env config (str_int (number issue')) of
            Inl e \<Rightarrow> (Inl e, [])
          | Inr rt \<Rightarrow>
      (case initialize_runtime (run_action env) rt of
         (Inl e, rt1, evs1) \<Rightarrow> (Inl e, evs1)
       | (Inr u, rt1, evs1) \<Rightarrow>
      (let instruction' = get_instruction issue'
       in case run_controller env config instruction' rt1 of
            (Inl e, rt2) \<Rightarrow> (Inl e, evs1)
          | (Inr None, rt2) \<Rightarrow> (Inl (RuntimeError ''Failed to run the agent.''), evs1)
          | (Inr (Some state), rt2) \<Rightarrow>
      (case complete_runtime (run_action env) rt2 base_commit' of
         (Inl e, rt3, evs2) \<Rightarrow> (Inl e, evs1 @ evs2)
       | (Inr git_patch', rt3, evs2) \<Rightarrow>
      (case guess_success (json_loads env) (completion env) issue' (State.history state)
              llm_config' of
         (Inl e, evs3) \<Rightarrow> (Inl e, evs1 @ evs2 @ evs3)
       | (Inr (success', success_explanation'), evs3) \<Rightarrow>
           (Inr \<lparr>issue = issue', instruction = instruction', base_commit = base_commit',
                 git_patch = git_patch',
                 history = map asdict (State.history state),
                 metrics = State.metrics state,
                 success = success', success_explanation = success_explanation',
                 error = (case last_error state of
                            None \<Rightarrow> None
                          | Some msg \<Rightarrow> if msg = [] then None else Some msg)\<rparr>,
            evs1 @ evs2 @ evs3)))))))"

section \<open>The orchestrator\<close>

text \<open>
  \<open>issues[:limit]\<close> (a negative limit counts from the end) and \<open>str\<close> of an
  optional string, as an f-string prints it.
\<close>

definition py_slice_to :: "int \<Rightarrow> 'a list \<Rightarrow> 'a list" where
  "py_slice_to l xs = (if 0 \<le> l then take (nat l) xs else take (length xs - nat (- l)) xs)"

definition py_str :: "string option \<Rightarrow> string" where
  "py_str v = (case v of None \<Rightarrow> ''None'' | Some text \<Rightarrow> text)"

text \<open>
  \<open>asyncio.gather\<close> over the tasks. Each task is \<open>update_progress\<close> awaiting the
  pipeline of one issue: when the pipeline returns, its record is written to the
  output file as one line and flushed; when it raises, nothing is written and
  the exception leaves the task. \<open>gather\<close> is called without
  \<open>return_exceptions\<close>, so the first exception of a task is raised from it.

  In which order the tasks complete is up to the event loop. The model takes it
  as the parameter \<open>schedule\<close>: the indices of the tasks that ran to their end
  before the run was over, in the order they completed. \<open>valid_schedule\<close> says
  what every real schedule satisfies: no task completes twice, and when no
  completed task raised, every task has completed.
\<close>

fun first_error :: "(error + 'a) list \<Rightarrow> error option" where
  "first_error [] = None"
| "first_error (Inl e # rs) = Some e"
| "first_error (Inr x # rs) = first_error rs"

fun written :: "(error + 'a) list \<Rightarrow> 'a list" where
  "written [] = []"
| "written (Inl e # rs) = written rs"
| "written (Inr x # rs) = x # written rs"

definition gather ::
  "(error + ResolverOutput) list \<Rightarrow> nat list \<Rightarrow> error option \<times> ResolverOutput list" where
  "gather tasks schedule =
     (let completed = map (\<lambda>i. tasks ! i) (filter (\<lambda>i. i < length tasks) schedule)
      in (first_error completed, written completed))"

definition valid_schedule :: "(error + ResolverOutput) list \<Rightarrow> nat list \<Rightarrow> bool" where
  "valid_schedule tasks schedule \<longleftrightarrow>
     distinct schedule \<and> (\<forall>i \<in> set schedule. i < length tasks)
     \<and> ((\<forall>i \<in> set schedule. \<not> isl (tasks ! i)) \<longrightarrow> set schedule = {..<length tasks})"

text \<open>
  What a run of the script leaves behind: how \<open>asyncio.run(resolve_issues(...))\<close>
  ended (\<open>Blocked\<close>: it never returns), the subprocess calls it made, the
  pipelines it created (one per task: the issue, and what the pipeline does when
  it runs to its end), the records it appended to the output file, in order, and
  whether \<open>cleanup()\<close> ran.
\<close>

datatype run_outcome = Finished | Raised error | Blocked

record run_result =
  outcome :: run_outcome
  subprocess_calls :: "string list list"
  pipelines :: "(GithubIssue \<times> (error + ResolverOutput) \<times> event list) list"
  appended :: "ResolverOutput list"
  cleanup_ran :: bool

definition aborted :: "error \<Rightarrow> string list list \<Rightarrow> run_result" where
  "aborted e calls =
     \<lparr>outcome = Raised e, subprocess_calls = calls, pipelines = [], appended = [],
      cleanup_ran = False\<rparr>"

definition run_outcome_of :: "error option \<Rightarrow> run_outcome" where
  "run_outcome_of raised = (case raised of None \<Rightarrow> Finished | Some e \<Rightarrow> Raised e)"

text \<open>
  \<open>resolve_issues\<close>. The two \<open>mkdir\<close> calls and the opening of the output file
  are left out. The list \<open>new_issues\<close> is built as in the source, and as in the
  source the loop that creates the tasks runs over \<open>issues\<close>:
  \<^verbatim>\<open>
  new_issues = []
  for issue in issues:
      if issue.number in finished_numbers:
          continue
      new_issues.append(issue)
  ...
  tasks = []
  for issue in issues:
      task = update_progress(process_issue(issue, base_commit, ...), output_fp, pbar)
      tasks.append(task)
  sem = asyncio.Semaphore(num_workers)
  async def run_with_semaphore(task):
      async with sem:
          return await task
  await asyncio.gather(*[run_with_semaphore(task) for task in tasks])
  \<close>
  \<open>asyncio.Semaphore\<close> raises \<open>ValueError\<close> for a negative value; with the value 0
  no task ever gets past \<open>async with sem\<close>. Of the exceptions that leave the
  \<open>try\<close> block only \<open>KeyboardInterrupt\<close> is caught, and the clause runs
  \<open>cleanup()\<close>. That does not end the run normally: a \<open>KeyboardInterrupt\<close> raised
  in a task leaves the event loop, the clause is reached while \<open>asyncio.run\<close>
  winds the loop down, and \<open>asyncio.run\<close> raises the exception to the script.
  Every other exception of a task is raised from \<open>gather\<close> and from
  \<open>resolve_issues\<close>.
\<close>

text \<open>The argument lists of the two \<open>subprocess.check_output\<close> calls.\<close>

definition clone_call :: "string option \<Rightarrow> string \<Rightarrow> string \<Rightarrow> string \<Rightarrow> string \<Rightarrow> string list" where
  "clone_call username' token' owner' repo' output_dir' =
     [''git'', ''clone'',
      ''https://'' @ py_str username' @ '':'' @ token' @ ''@github.com/'' @ owner' @ ''/'' @ repo',
      output_dir' @ ''/repo'']"

definition rev_parse_call :: "string \<Rightarrow> string list" where
  "rev_parse_call output_dir' =
     [''cd'', output_dir' @ ''/repo'', ''&&'', ''git'', ''rev-parse'', ''HEAD'']"

definition resolve_issues ::
  "'r env \<Rightarrow> nat list \<Rightarrow> string \<Rightarrow> string \<Rightarrow> string \<Rightarrow> string option \<Rightarrow> int \<Rightarrow> int option
   \<Rightarrow> int \<Rightarrow> string \<Rightarrow> LLMConfig \<Rightarrow> string \<Rightarrow> run_result" where
  "resolve_issues env schedule owner' repo' token' username' max_iterations' limit_issues'
     num_workers' output_dir' llm_config' runtime_container_image' =
     (case download_issues_from_github env owner' repo' token' of
        Inl e \<Rightarrow> aborted e []
      | Inr downloaded \<Rightarrow>
     (let issues = (case limit_issues' of
                      None \<Rightarrow> downloaded
                    | Some l \<Rightarrow> py_slice_to l downloaded);
          clone = clone_call username' token' owner' repo' output_dir'
      in case check_output env clone of
           Inl e \<Rightarrow> aborted e [clone]
         | Inr checkout_output \<Rightarrow>
     (if sublist ''fatal'' checkout_output
      then aborted (RuntimeError (''Failed to clone repository: '' @ checkout_output)) [clone]
      else
     (let rev_parse = rev_parse_call output_dir'
      in case check_output env rev_parse of
           Inl e \<Rightarrow> aborted e [clone, rev_parse]
         | Inr printed \<Rightarrow>
     (let base_commit' = py_strip printed;
          output_file = path_join output_dir' ''output.jsonl''
      in case (case read_lines env output_file of
                 None \<Rightarrow> Inr {}
               | Some lines \<Rightarrow> load_finished_numbers (json_loads env) lines {}) of
           Inl e \<Rightarrow> aborted e [clone, rev_parse]
         | Inr finished_numbers \<Rightarrow>
     (let new_issues = filter (\<lambda>issue'. \<not> py_in (number issue') finished_numbers) issues;
          tasks = map (\<lambda>issue'. process_issue env issue' base_commit' max_iterations'
                         llm_config' output_dir' runtime_container_image' (num_workers' > 1))
                    issues;
          created = zip issues tasks
      in if num_workers' < 0
         then \<lparr>outcome = Raised (ValueError ''Semaphore initial value must be >= 0''),
               subprocess_calls = [clone, rev_parse], pipelines = created, appended = [],
               cleanup_ran = False\<rparr>
         else if num_workers' = 0 \<and> tasks \<noteq> []
         then \<lparr>outcome = Blocked, subprocess_calls = [clone, rev_parse],
               pipelines = created, appended = [], cleanup_ran = False\<rparr>
         else (case gather (map fst tasks) schedule of
                 (raised, records) \<Rightarrow>
                   \<lparr>outcome = run_outcome_of raised,
                    subprocess_calls = [clone, rev_parse],
                    pipelines = created, appended = records,
                    cleanup_ran = (raised = Some KeyboardInterrupt)\<rparr>)))))))"

section \<open>The command surface\<close>

text \<open>
  The arguments after \<open>parser.parse_args()\<close>, and the body of the script below
  it: split \<open>--repo\<close> at the slash into exactly two parts (the unpacking raises
  \<open>ValueError\<close> otherwise), take token and user name from the arguments or the
  environment, require the token, refuse an output directory that exists, build
  the model configuration, and run \<open>resolve_issues\<close>.
\<close>

record Args =
  repo :: string
  token :: "string option"
  username :: "string option"
  runtime_container_image :: string
  agent_class :: string
  max_iterations :: int
  limit_issues :: "int option"
  num_workers :: int
  workspace_dir :: string
  output_dir :: string
  llm_model :: "string option"
  llm_api_key :: "string option"

fun py_split :: "char \<Rightarrow> string \<Rightarrow> string list" where
  "py_split sep [] = [[]]"
| "py_split sep (c # cs) =
     (if c = sep then [] # py_split sep cs
      else (case py_split sep cs of
              [] \<Rightarrow> [[c]]
            | w # ws \<Rightarrow> (c # w) # ws))"

definition truthy :: "string option \<Rightarrow> bool" where
  "truthy v = (case v of None \<Rightarrow> False | Some text \<Rightarrow> text \<noteq> [])"

definition or_environ :: "string option \<Rightarrow> (string \<Rightarrow> string option) \<Rightarrow> string \<Rightarrow> error + string" where
  "or_environ v env_vars key =
     (case (if truthy v then v else None) of
        Some text \<Rightarrow> Inr text
      | None \<Rightarrow> (case env_vars key of None \<Rightarrow> Inl (KeyError key) | Some text \<Rightarrow> Inr text))"

definition main :: "'r env \<Rightarrow> nat list \<Rightarrow> Args \<Rightarrow> run_result" where
  "main env schedule my_args =
     (case py_split CHR ''/'' (Args.repo my_args) of
        [owner', repo'] \<Rightarrow>
          (let token' = (if truthy (token my_args) then token my_args
                         else environ env ''GITHUB_TOKEN'');
               username' = (if truthy (username my_args) then username my_args
                            else environ env ''GITHUB_USERNAME'')
           in case (if truthy token' then token' else None) of
                None \<Rightarrow> aborted (ValueError ''Github token is required.'') []
              | Some tok \<Rightarrow>
                  if path_exists env (output_dir my_args)
                  then aborted (ValueError (''Output directory '' @ output_dir my_args
                         @ '' already exists, remove it or specify a different one.'')) []
                  else (case or_environ (llm_model my_args) (environ env) ''LLM_MODEL'' of
                          Inl e \<Rightarrow> aborted e []
                        | Inr model' \<Rightarrow>
                       (case or_environ (llm_api_key my_args) (environ env) ''LLM_API_KEY'' of
                          Inl e \<Rightarrow> aborted e []
                        | Inr api_key' \<Rightarrow>
                            resolve_issues env schedule owner' repo' tok username'
                              (Args.max_iterations my_args) (limit_issues my_args)
                              (num_workers my_args) (output_dir my_args)
                              \<lparr>model = model', api_key = api_key'\<rparr>
                              (Args.runtime_container_image my_args))))
      | parts \<Rightarrow>
          aborted (ValueError (if length parts < 2
                               then ''not enough values to unpack (expected 2, got 1)''
                               else ''too many values to unpack (expected 2)'')) [])"

section \<open>Properties of the pipeline and of the orchestrator\<close>

subsection \<open>What a pipeline runs in its sandbox\<close>

text \<open>
  Every command a pipeline itself runs in the sandbox is one of the four setup
  commands or the diff against the base commit \<open>bc\<close> it was given.
\<close>

definition pipeline_event :: "string \<Rightarrow> event \<Rightarrow> bool" where
  "pipeline_event bc ev =
     (case ev of
        Ran a obs \<Rightarrow>
          command a \<in> set setup_commands \<or> command a = ''git diff --no-color --cached '' @ bc
      | _ \<Rightarrow> True)"

lemma setup_event_pipeline_event: "setup_event ev \<Longrightarrow> pipeline_event bc ev"
  by (cases ev) (simp_all add: setup_event_def pipeline_event_def)

lemma diff_loop_events:
  "diff_loop run bc k rt = (res, rt', evs) \<Longrightarrow> ev \<in> set evs \<Longrightarrow> pipeline_event bc ev"
proof (induction "5 - k" arbitrary: k rt evs)
  case 0
  from "0.prems"(1) show ?case
    by (cases rule: diff_loop_shape) (use 0 in \<open>auto simp: pipeline_event_def diff_action_def\<close>)
next
  case (Suc d)
  from Suc.prems(1) show ?case
  proof (cases rule: diff_loop_shape)
    case (retry obs1 rt1 evs1)
    from Suc.hyps(2) have d: "d = 5 - Suc k" by simp
    from Suc.prems(2) retry(5)
    consider "ev = Ran (diff_action bc k) obs1" | "ev = Slept 10" | "ev \<in> set evs1" by auto
    then show ?thesis
    proof cases
      case 3
      from Suc.hyps(1) [OF d retry(4) this] show ?thesis .
    qed (simp_all add: pipeline_event_def diff_action_def)
  qed (use Suc.prems(2) in \<open>auto simp: pipeline_event_def diff_action_def\<close>)
qed

lemma complete_runtime_events:
  assumes "complete_runtime run rt bc = (res, rt', evs)" and "ev \<in> set evs"
  shows "pipeline_event bc ev"
  using assms(1)
proof (cases rule: complete_runtime_shape)
  case (setup_failed e)
  with assms(2) show ?thesis by (auto intro: setup_event_pipeline_event)
next
  case (diffed pre rt4 devs)
  from assms(2) diffed(1) consider "ev \<in> set pre" | "ev \<in> set devs" by auto
  then show ?thesis
  proof cases
    case 1
    with diffed(3) show ?thesis by (auto intro: setup_event_pipeline_event)
  next
    case 2
    from diff_loop_events [OF diffed(4) this] show ?thesis .
  qed
qed

lemma initialize_runtime_events:
  assumes "initialize_runtime run rt = (res, rt', evs)" and "ev \<in> set evs"
  shows "setup_event ev"
  using assms(1) [unfolded initialize_runtime_def]
proof (cases rule: and_then_shape)
  case (raised e)
  from raised(1) assms(2) show ?thesis
    by (cases rule: run_checked_shape)
      (auto simp: setup_event_def setup_action_def setup_commands_def)
next
  case (went_on x rt1 evs1 evs2)
  from went_on(1) have 1: "\<forall>ev \<in> set evs1. setup_event ev"
    by (cases rule: run_checked_shape)
      (auto simp: setup_event_def setup_action_def setup_commands_def)
  from went_on(2) have 2: "\<forall>ev \<in> set evs2. setup_event ev"
    by (cases rule: run_checked_shape)
      (auto simp: setup_event_def setup_action_def setup_commands_def)
  from 1 2 went_on(3) assms(2) show ?thesis by auto
qed

lemma guess_success_events:
  "guess_success jl oracle iss h cfg = (res, evs) \<Longrightarrow> ev \<in> set evs \<Longrightarrow> pipeline_event bc ev"
  by (cases h)
    (auto simp: guess_success_def Let_def pipeline_event_def
      split: sum.splits option.splits)

lemma process_issue_events:
  assumes "process_issue env iss bc mi cfg od img rl = (res, trace)" and "ev \<in> set trace"
  shows "pipeline_event bc ev"
proof -
  let ?ws = "abspath env (path_join (path_join od ''workspace'') (''issue_'' @ str_int (number iss)))"
  let ?config = "app_config mi img ?ws cfg"
  show ?thesis
  proof (cases "copytree env (path_join od ''repo'') ?ws")
    case (Some e)
    with assms show ?thesis by (simp add: process_issue_def)
  next
    case None
    show ?thesis
    proof (cases "create_runtime env ?config (str_int (number iss))")
      case (Inl e)
      with None assms show ?thesis by (simp add: process_issue_def)
    next
      case (Inr rt)
      obtain r1 rt1 evs1 where i: "initialize_runtime (run_action env) rt = (r1, rt1, evs1)"
        by (cases "initialize_runtime (run_action env) rt")
      then have e1: "\<forall>ev \<in> set evs1. pipeline_event bc ev"
        by (auto intro: setup_event_pipeline_event dest: initialize_runtime_events)
      show ?thesis
      proof (cases r1)
        case (Inl e)
        with None Inr i assms e1 show ?thesis by (auto simp: process_issue_def)
      next
        case r1: (Inr u)
        obtain r2 rt2 where c: "run_controller env ?config (get_instruction iss) rt1 = (r2, rt2)"
          by (cases "run_controller env ?config (get_instruction iss) rt1")
        show ?thesis
        proof (cases r2)
          case (Inl e)
          with None Inr i r1 c assms e1 show ?thesis by (auto simp: process_issue_def)
        next
          case r2: (Inr st)
          show ?thesis
          proof (cases st)
            case None': None
            with None Inr i r1 c r2 assms e1 show ?thesis by (auto simp: process_issue_def)
          next
            case (Some state)
            obtain r3 rt3 evs2 where
              k: "complete_runtime (run_action env) rt2 bc = (r3, rt3, evs2)"
              by (cases "complete_runtime (run_action env) rt2 bc")
            then have e2: "\<forall>ev \<in> set evs2. pipeline_event bc ev"
              by (auto dest: complete_runtime_events)
            show ?thesis
            proof (cases r3)
              case (Inl e)
              with None Inr i r1 c r2 Some k assms e1 e2 show ?thesis
                by (auto simp: process_issue_def)
            next
              case r3: (Inr patch)
              obtain r4 evs3 where
                g: "guess_success (json_loads env) (completion env) iss (State.history state) cfg
                      = (r4, evs3)"
                by (cases "guess_success (json_loads env) (completion env) iss
                      (State.history state) cfg")
              then have e3: "\<forall>ev \<in> set evs3. pipeline_event bc ev"
                by (auto dest: guess_success_events)
              from None Inr i r1 c r2 Some k r3 g assms e1 e2 e3 show ?thesis
                by (cases r4) (auto simp: process_issue_def)
            qed
          qed
        qed
      qed
    qed
  qed
qed

lemma process_issue_record:
  "process_issue env iss bc mi cfg od img rl = (Inr out, trace) \<Longrightarrow>
   issue out = iss \<and> base_commit out = bc"
  by (auto simp: process_issue_def Let_def split: option.splits sum.splits prod.splits)


subsection \<open>The tasks under \<open>gather\<close>\<close>

lemma written_mem: "x \<in> set (written rs) \<longleftrightarrow> Inr x \<in> set rs"
  by (induction rs rule: written.induct) auto

lemma first_error_mem: "first_error rs = Some e \<Longrightarrow> Inl e \<in> set rs"
  by (induction rs rule: first_error.induct) auto

lemma first_error_None: "first_error rs = None \<longleftrightarrow> (\<forall>r \<in> set rs. \<not> isl r)"
  by (induction rs rule: first_error.induct) auto

lemma gather_records:
  "gather tasks schedule = (raised, records) \<Longrightarrow> out \<in> set records \<Longrightarrow>
   \<exists>i \<in> set schedule. i < length tasks \<and> tasks ! i = Inr out"
  by (fastforce simp: gather_def Let_def written_mem)

lemma gather_raised:
  "gather tasks schedule = (Some e, records) \<Longrightarrow>
   \<exists>i \<in> set schedule. i < length tasks \<and> tasks ! i = Inl e"
  by (fastforce simp: gather_def Let_def dest!: first_error_mem)

lemma gather_not_raised:
  "gather tasks schedule = (None, records) \<Longrightarrow> i \<in> set schedule \<Longrightarrow> i < length tasks \<Longrightarrow>
   \<not> isl (tasks ! i)"
  by (auto simp: gather_def Let_def first_error_None)

text \<open>
  The list \<open>tasks\<close> of \<open>resolve_issues\<close>: one pipeline per issue of \<open>issues\<close>, all with
  the same base commit.
\<close>

definition run_pipelines ::
  "'r env \<Rightarrow> GithubIssue list \<Rightarrow> string \<Rightarrow> int \<Rightarrow> LLMConfig \<Rightarrow> string \<Rightarrow> string \<Rightarrow> int
   \<Rightarrow> ((error + ResolverOutput) \<times> event list) list" where
  "run_pipelines env issues bc mi cfg od img nw =
     map (\<lambda>iss. process_issue env iss bc mi cfg od img (nw > 1)) issues"

text \<open>
  A run of \<open>resolve_issues\<close> either aborts during its setup, with no pipeline
  created, or gets as far as creating its tasks.
\<close>

lemma resolve_issues_shape:
  assumes "r = resolve_issues env schedule ow rp tk un mi li nw od cfg img"
  obtains (abort) e calls where "r = aborted e calls"
  | (ran) issues printed where
      "check_output env (rev_parse_call od) = Inr printed"
      "subprocess_calls r = [clone_call un tk ow rp od, rev_parse_call od]"
      "pipelines r = zip issues (run_pipelines env issues (py_strip printed) mi cfg od img nw)"
      "nw < 0 \<or> (nw = 0 \<and> issues \<noteq> []) \<Longrightarrow> appended r = [] \<and> outcome r \<noteq> Finished"
      "\<not> (nw < 0 \<or> (nw = 0 \<and> issues \<noteq> [])) \<Longrightarrow>
         appended r =
           snd (gather (map fst (run_pipelines env issues (py_strip printed) mi cfg od img nw))
                  schedule)
         \<and> outcome r =
           run_outcome_of (fst (gather (map fst (run_pipelines env issues (py_strip printed) mi cfg od img nw))
                        schedule))"
proof (cases "download_issues_from_github env ow rp tk")
  case (Inl e)
  with assms show ?thesis by (auto simp: resolve_issues_def intro: abort)
next
  case dl: (Inr downloaded)
  show ?thesis
  proof (cases "check_output env (clone_call un tk ow rp od)")
    case (Inl e)
    with dl assms show ?thesis by (auto simp: resolve_issues_def intro: abort)
  next
    case cl: (Inr checkout_output)
    show ?thesis
    proof (cases "sublist ''fatal'' checkout_output")
      case True
      with dl cl assms show ?thesis by (auto simp: resolve_issues_def intro: abort)
    next
      case nf: False
      show ?thesis
      proof (cases "check_output env (rev_parse_call od)")
        case (Inl e)
        with dl cl nf assms show ?thesis by (auto simp: resolve_issues_def intro: abort)
      next
        case rv: (Inr printed)
        show ?thesis
        proof (cases "case read_lines env (path_join od ''output.jsonl'') of
                 None \<Rightarrow> Inr {}
               | Some lines \<Rightarrow> load_finished_numbers (json_loads env) lines {}")
          case (Inl e)
          with dl cl nf rv assms show ?thesis
            by (auto simp: resolve_issues_def Let_def intro: abort)
        next
          case fn: (Inr finished_numbers)
          let ?issues = "case li of None \<Rightarrow> downloaded | Some l \<Rightarrow> py_slice_to l downloaded"
          from dl cl nf rv fn assms
          have 1: "subprocess_calls r = [clone_call un tk ow rp od, rev_parse_call od]"
            and 2: "pipelines r =
              zip ?issues (run_pipelines env ?issues (py_strip printed) mi cfg od img nw)"
            and 3: "nw < 0 \<or> (nw = 0 \<and> ?issues \<noteq> []) \<Longrightarrow>
              appended r = [] \<and> outcome r \<noteq> Finished"
            and 4: "\<not> (nw < 0 \<or> (nw = 0 \<and> ?issues \<noteq> [])) \<Longrightarrow>
              appended r =
                snd (gather (map fst (run_pipelines env ?issues (py_strip printed) mi cfg od img nw))
                  schedule)
              \<and> outcome r =
                run_outcome_of (fst (gather (map fst (run_pipelines env ?issues (py_strip printed) mi cfg od img nw))
                        schedule))"
            by (auto simp: resolve_issues_def Let_def run_pipelines_def split: prod.splits)
          from rv 1 2 3 4 show ?thesis by (rule ran)
        qed
      qed
    qed
  qed
qed


subsection \<open>A concrete resumed run\<close>

text \<open>
  Three issues, of which the output file already holds the records of the first
  two; a sandbox on which every command succeeds and the diff prints a fixed
  patch; an agent that ends with the message \<open>All done.\<close>; an inference service
  that answers \<open>{"success": true, "explanation": "ok"}\<close>; one worker, the tasks
  completing in the order of the list.
\<close>

definition issue2 :: GithubIssue where
  "issue2 = \<lparr>owner = ''o'', repo = ''r'', number = 2, title = ''Typo'', body = ''A typo.''\<rparr>"

definition issue3 :: GithubIssue where
  "issue3 = \<lparr>owner = ''o'', repo = ''r'', number = 3, title = ''Slow'', body = ''It is slow.''\<rparr>"

definition fixed_diff_runtime :: "unit run_action" where
  "fixed_diff_runtime rt a =
     (CmdOutputObservation 0 (if keep_prompt a then '''' else ''diff --git a/f b/f''), rt)"

definition final_state :: State where
  "final_state = \<lparr>State.history = [first_event, done_event], metrics = None, last_error = None\<rparr>"

definition agreeing_oracle :: completion_fn where
  \<open>agreeing_oracle m p k = Inr (Some ''{"success": true, "explanation": "ok"}'')\<close>

definition resume_env :: "unit env" where
  \<open>resume_env =
     \<lparr>download_issues_from_github = (\<lambda>ow rp tk. Inr [issue1, issue2, issue3]),
      check_output = (\<lambda>argv. Inr ''0123abc''),
      read_lines = (\<lambda>path. if path = ''output/output.jsonl''
                            then Some [''{"number": 1}'', ''{"number": 2, "patch": 7}'']
                            else None),
      path_exists = (\<lambda>path. False),
      environ = (\<lambda>key. None),
      json_loads = json_loads_stub,
      abspath = (\<lambda>path. path),
      copytree = (\<lambda>src dst. None),
      create_runtime = (\<lambda>config sid. Inr ()),
      run_action = fixed_diff_runtime,
      run_controller = (\<lambda>config task rt. (Inr (Some final_state), rt)),
      completion = agreeing_oracle\<rparr>\<close>

definition record_of :: "GithubIssue \<Rightarrow> ResolverOutput" where
  "record_of iss =
     \<lparr>issue = iss, instruction = get_instruction iss, base_commit = ''0123abc'',
      git_patch = Some ''diff --git a/f b/f'',
      history = [asdict first_event, asdict done_event], metrics = None,
      success = JBool True, success_explanation = JString ''ok'', error = None\<rparr>"

lemma initialize_fixed:
  "\<exists>evs. initialize_runtime fixed_diff_runtime () = (Inr (), (), evs)"
  by (simp add: initialize_runtime_def and_then_def run_checked_def fixed_diff_runtime_def
      setup_action_def)

lemma complete_fixed:
  "\<exists>evs. complete_runtime fixed_diff_runtime () bc = (Inr (Some ''diff --git a/f b/f''), (), evs)"
  by (simp add: complete_runtime_def and_then_def run_checked_def fixed_diff_runtime_def
      setup_action_def diff_loop.simps diff_action_def py_strip_outputs py_strip_empty)

lemma guess_agreeing:
  "\<exists>evs. guess_success json_loads_stub agreeing_oracle iss [first_event, done_event] cfg
     = (Inr (JBool True, JString ''ok''), evs)"
  by (simp add: guess_success_def agreeing_oracle_def json_loads_stub_def py_strip_answers)

lemma process_issue_resume:
  "fst (process_issue resume_env iss ''0123abc'' mi cfg od img rl) = Inr (record_of iss)"
proof -
  obtain e1 where 1: "initialize_runtime fixed_diff_runtime () = (Inr (), (), e1)"
    using initialize_fixed by blast
  obtain e2 where 2: "complete_runtime fixed_diff_runtime () ''0123abc''
      = (Inr (Some ''diff --git a/f b/f''), (), e2)"
    using complete_fixed by blast
  obtain e3 where 3: "guess_success json_loads_stub agreeing_oracle iss [first_event, done_event] cfg
     = (Inr (JBool True, JString ''ok''), e3)"
    using guess_agreeing by blast
  show ?thesis
    by (simp add: process_issue_def resume_env_def 1 2 3 final_state_def record_of_def)
qed

definition resumed_run :: run_result where
  "resumed_run =
     resolve_issues resume_env [0, 1, 2] ''o'' ''r'' ''tok'' (Some ''u'') 30 None 1 ''output''
       cfg1 ''img''"

lemma not_fatal: "\<not> sublist ''fatal'' ''0123abc''"
  by code_simp

lemma scan_resume:
  \<open>load_finished_numbers json_loads_stub [''{"number": 1}'', ''{"number": 2, "patch": 7}''] {}
     = Inr {JInt 1, JInt 2}\<close>
  by (auto simp: json_loads_stub_def)

lemma resolve_issues_ran:
  assumes "download_issues_from_github env ow rp tk = Inr downloaded"
    and "check_output env (clone_call un tk ow rp od) = Inr checkout_output"
    and "\<not> sublist ''fatal'' checkout_output"
    and "check_output env (rev_parse_call od) = Inr printed"
    and "(case read_lines env (path_join od ''output.jsonl'') of
            None \<Rightarrow> Inr {}
          | Some lines \<Rightarrow> load_finished_numbers (json_loads env) lines {}) = Inr finished"
    and "0 < nw"
    and "issues = (case li of None \<Rightarrow> downloaded | Some l \<Rightarrow> py_slice_to l downloaded)"
    and "tasks = run_pipelines env issues (py_strip printed) mi cfg od img nw"
  shows "resolve_issues env schedule ow rp tk un mi li nw od cfg img =
     \<lparr>outcome = run_outcome_of (fst (gather (map fst tasks) schedule)),
      subprocess_calls = [clone_call un tk ow rp od, rev_parse_call od],
      pipelines = zip issues tasks,
      appended = snd (gather (map fst tasks) schedule),
      cleanup_ran = (fst (gather (map fst tasks) schedule) = Some KeyboardInterrupt)\<rparr>"
  using assms
  by (simp add: resolve_issues_def Let_def run_pipelines_def split: prod.splits)

lemma resumed_run_value:
  "outcome resumed_run = Finished
   \<and> map fst (pipelines resumed_run) = [issue1, issue2, issue3]
   \<and> appended resumed_run = [record_of issue1, record_of issue2, record_of issue3]"
proof -
  have 1: "download_issues_from_github resume_env ''o'' ''r'' ''tok'' = Inr [issue1, issue2, issue3]"
    by (simp add: resume_env_def)
  have 2: "check_output resume_env (clone_call (Some ''u'') ''tok'' ''o'' ''r'' ''output'')
      = Inr ''0123abc''"
    by (simp add: resume_env_def)
  have 3: "check_output resume_env (rev_parse_call ''output'') = Inr ''0123abc''"
    by (simp add: resume_env_def)
  have 4: "(case read_lines resume_env (path_join ''output'' ''output.jsonl'') of
            None \<Rightarrow> Inr {}
          | Some lines \<Rightarrow> load_finished_numbers (json_loads resume_env) lines {})
      = Inr {JInt 1, JInt 2}"
    using scan_resume by (simp add: resume_env_def path_join_def)
  have s: "py_strip ''0123abc'' = ''0123abc''"
    by (rule py_strip_outputs)
  have t: "map fst (run_pipelines resume_env [issue1, issue2, issue3] ''0123abc'' 30 cfg1
        ''output'' ''img'' 1) = [Inr (record_of issue1), Inr (record_of issue2), Inr (record_of issue3)]"
    by (simp add: run_pipelines_def process_issue_resume)
  have g: "gather [Inr (record_of issue1), Inr (record_of issue2), Inr (record_of issue3)] [0, 1, 2]
      = (None, [record_of issue1, record_of issue2, record_of issue3])"
    by (simp add: gather_def)
  have l: "length (run_pipelines resume_env [issue1, issue2, issue3] ''0123abc'' 30 cfg1
        ''output'' ''img'' 1) = 3"
    by (simp add: run_pipelines_def)
  let ?T = "run_pipelines resume_env [issue1, issue2, issue3] ''0123abc'' 30 cfg1
        ''output'' ''img'' 1"
  have r: "resumed_run =
     \<lparr>outcome = run_outcome_of (fst (gather (map fst ?T) [0, 1, 2])),
      subprocess_calls = [clone_call (Some ''u'') ''tok'' ''o'' ''r'' ''output'',
                          rev_parse_call ''output''],
      pipelines = zip [issue1, issue2, issue3] ?T,
      appended = snd (gather (map fst ?T) [0, 1, 2]),
      cleanup_ran = (fst (gather (map fst ?T) [0, 1, 2]) = Some KeyboardInterrupt)\<rparr>"
    unfolding resumed_run_def
    by (rule resolve_issues_ran [OF 1 2 not_fatal 3 4]) (simp_all add: s)
  show ?thesis
    unfolding r t g using l by (simp add: run_outcome_of_def)
qed


text \<open>
  The schedule of this run is one the event loop can produce, and \<open>new_issues\<close>
  is the one issue whose number the scan did not find.
\<close>

lemma resumed_schedule_valid:
  "valid_schedule (map (\<lambda>p. fst (snd p)) (pipelines resumed_run)) [0, 1, 2]"
proof -
  from resumed_run_value have "length (map fst (pipelines resumed_run)) = 3" by simp
  then have l: "length (pipelines resumed_run) = 3" by simp
  have "{0, Suc 0, 2} = {..<3::nat}" by auto
  with l show ?thesis by (simp add: valid_schedule_def)
qed

lemma new_issues_resumed:
  "filter (\<lambda>issue'. \<not> py_in (number issue') {JInt 1, JInt 2}) [issue1, issue2, issue3]
     = [issue3]"
  by (simp add: py_in_def issue1_def issue2_def issue3_def)

text \<open>
  C1. Resuming does not skip finished issues. In the run above the output file
  holds the records of issues 1 and 2, the scan collects these two numbers, and
  \<open>new_issues\<close> is issue 3 alone;
  still a pipeline is created for each of the three issues, where the claim has
  \<open>3 - 2 = 1\<close>, and the run appends a record for each of the three, so that the
  ids 1 and 2 are in the output file twice. \<open>resolve_issues\<close> builds \<open>new_issues\<close>
  without the finished issues and then creates its tasks from \<open>issues\<close>.
\<close>

theorem resumed_run_schedules_every_issue:
  \<open>read_lines resume_env ''output/output.jsonl''
      = Some [''{"number": 1}'', ''{"number": 2, "patch": 7}'']
   \<and> load_finished_numbers (json_loads resume_env)
        [''{"number": 1}'', ''{"number": 2, "patch": 7}''] {} = Inr {JInt 1, JInt 2}
   \<and> filter (\<lambda>issue'. \<not> py_in (number issue') {JInt 1, JInt 2}) [issue1, issue2, issue3]
       = [issue3]
   \<and> map (\<lambda>p. number (fst p)) (pipelines resumed_run) = [1, 2, 3]
   \<and> map (\<lambda>out. number (issue out)) (appended resumed_run) = [1, 2, 3]
   \<and> outcome resumed_run = Finished\<close>
proof -
  have 1: \<open>read_lines resume_env ''output/output.jsonl''
      = Some [''{"number": 1}'', ''{"number": 2, "patch": 7}'']\<close>
    by (simp add: resume_env_def)
  have 2: \<open>load_finished_numbers (json_loads resume_env)
        [''{"number": 1}'', ''{"number": 2, "patch": 7}''] {} = Inr {JInt 1, JInt 2}\<close>
    using scan_resume by (simp add: resume_env_def)
  have "map (\<lambda>p. number (fst p)) (pipelines resumed_run)
      = map number (map fst (pipelines resumed_run))"
    by (simp add: comp_def)
  with resumed_run_value
  have 3: "map (\<lambda>p. number (fst p)) (pipelines resumed_run) = map number [issue1, issue2, issue3]"
    by simp
  from resumed_run_value
  have 4: "map (\<lambda>out. number (issue out)) (appended resumed_run)
      = map (\<lambda>out. number (issue out)) [record_of issue1, record_of issue2, record_of issue3]"
    by simp
  from 1 2 3 4 resumed_run_value new_issues_resumed show ?thesis
    by (simp add: issue1_def issue2_def issue3_def record_of_def)
qed

subsection \<open>The value every pipeline is given\<close>

lemma in_zip_map: "(x, y) \<in> set (zip xs (map f xs)) \<Longrightarrow> y = f x"
  by (auto simp: set_zip)

text \<open>
  What the setup hands on. In every run that creates a pipeline, the value called
  \<open>base_commit\<close> is what the second subprocess call of the setup printed,
  stripped: the call occurs once among the subprocess calls of the run, it is made
  before the tasks are created (a run in which it raises creates none), every
  pipeline is given this one value, every diff command a pipeline runs is the diff
  against it, and every record, written or not, carries it as its
  \<open>base_commit\<close>. Which program that call runs is the subject of the next
  subsection.
\<close>

lemma printed_value_shared_by_pipelines:
  assumes "r = resolve_issues env schedule ow rp tk un mi li nw od cfg img"
    and "pipelines r \<noteq> []"
  shows "\<exists>printed. check_output env (rev_parse_call od) = Inr printed
     \<and> count_list (subprocess_calls r) (rev_parse_call od) = 1
     \<and> (\<forall>(iss, res, trace) \<in> set (pipelines r).
           (\<forall>ev \<in> set trace. pipeline_event (py_strip printed) ev)
           \<and> (\<forall>out. res = Inr out \<longrightarrow> base_commit out = py_strip printed))
     \<and> (\<forall>out \<in> set (appended r). base_commit out = py_strip printed)"
  using assms(1)
proof (cases rule: resolve_issues_shape)
  case (abort e calls)
  with assms(2) show ?thesis by (simp add: aborted_def)
next
  case (ran issues printed)
  let ?bc = "py_strip printed"
  let ?T = "run_pipelines env issues ?bc mi cfg od img nw"
  have once: "count_list (subprocess_calls r) (rev_parse_call od) = 1"
    by (simp add: ran(2) clone_call_def rev_parse_call_def)
  have pipes: "(\<forall>ev \<in> set trace. pipeline_event ?bc ev)
       \<and> (\<forall>out. res = Inr out \<longrightarrow> base_commit out = ?bc)"
    if "(iss, res, trace) \<in> set (pipelines r)" for iss res trace
  proof -
    from that ran(3) have "(res, trace) = process_issue env iss ?bc mi cfg od img (nw > 1)"
      unfolding run_pipelines_def by (auto dest: in_zip_map)
    then have p: "process_issue env iss ?bc mi cfg od img (nw > 1) = (res, trace)" by simp
    from process_issue_events [OF p] process_issue_record [of env iss ?bc mi cfg od img "nw > 1" _ trace] p
    show ?thesis by auto
  qed
  have recs: "base_commit out = ?bc" if "out \<in> set (appended r)" for out
  proof (cases "nw < 0 \<or> (nw = 0 \<and> issues \<noteq> [])")
    case True
    from ran(4) [OF True] that show ?thesis by simp
  next
    case False
    from ran(5) [OF False] that have "out \<in> set (snd (gather (map fst ?T) schedule))" by simp
    then obtain i where i: "i < length (map fst ?T)" "map fst ?T ! i = Inr out"
      using gather_records [of "map fst ?T" schedule "fst (gather (map fst ?T) schedule)"
          "snd (gather (map fst ?T) schedule)" out]
      by auto
    then have "fst (process_issue env (issues ! i) ?bc mi cfg od img (nw > 1)) = Inr out"
      by (simp add: run_pipelines_def)
    then obtain trace where "process_issue env (issues ! i) ?bc mi cfg od img (nw > 1) = (Inr out, trace)"
      by (cases "process_issue env (issues ! i) ?bc mi cfg od img (nw > 1)") auto
    from process_issue_record [OF this] show ?thesis by simp
  qed
  from ran(1) once pipes recs show ?thesis by blast
qed

lemma printed_value_shared_by_pipelines_example:
  "pipelines resumed_run \<noteq> []
   \<and> count_list (subprocess_calls resumed_run) (rev_parse_call ''output'') = 1
   \<and> map base_commit (appended resumed_run) = [''0123abc'', ''0123abc'', ''0123abc'']"
proof -
  have ne: "pipelines resumed_run \<noteq> []"
    using resumed_run_value by auto
  have s: "py_strip ''0123abc'' = ''0123abc''"
    by (rule py_strip_outputs)
  from printed_value_shared_by_pipelines [OF resumed_run_def ne]
  obtain printed where p: "check_output resume_env (rev_parse_call ''output'') = Inr printed"
    and c: "count_list (subprocess_calls resumed_run) (rev_parse_call ''output'') = 1"
    and a: "\<forall>out \<in> set (appended resumed_run). base_commit out = py_strip printed"
    by blast
  from p have "printed = ''0123abc''" by (simp add: resume_env_def)
  with a s have "\<forall>out \<in> set (appended resumed_run). base_commit out = ''0123abc''" by simp
  with resumed_run_value have "map base_commit (appended resumed_run)
      = [''0123abc'', ''0123abc'', ''0123abc'']" by simp
  with ne c show ?thesis by simp
qed

subsection \<open>The call that is to capture the base commit\<close>

text \<open>
  \<^verbatim>\<open>
  # get the commit id of current repo for reproducibility
  base_commit = (
      subprocess.check_output(
          ["cd", f"{output_dir}/repo", "&&", "git", "rev-parse", "HEAD"]
      )
      .decode("utf-8")
      .strip()
  )
  \<close>
  \<open>subprocess.check_output\<close> is given an argument list and no shell. Then the
  first element names the program to execute and the other elements are its
  arguments; a program that is not installed raises \<open>FileNotFoundError\<close>.
  \<open>exec_without_shell installed\<close> is this call on a host whose programs are
  \<open>installed\<close>. Two hosts follow, on both of which \<open>git rev-parse HEAD\<close> would
  print the commit id \<open>0123abc\<close>: one that has no program \<open>cd\<close>, and one that has
  a program \<open>cd\<close> that prints nothing.
\<close>

definition exec_without_shell ::
  "(string \<Rightarrow> (string list \<Rightarrow> error + string) option) \<Rightarrow> string list \<Rightarrow> error + string" where
  "exec_without_shell installed argv =
     (case argv of
        [] \<Rightarrow> Inl (IndexError ''list index out of range'')
      | prog # args \<Rightarrow>
          (case installed prog of
             None \<Rightarrow> Inl (FileNotFoundError prog)
           | Some p \<Rightarrow> p args))"

definition git_program :: "string list \<Rightarrow> error + string" where
  "git_program args =
     (if args = [''rev-parse'', ''HEAD''] then Inr (''0123abc'' @ [CHR 0x0A]) else Inr [])"

definition silent_program :: "string list \<Rightarrow> error + string" where
  "silent_program args = Inr []"

definition git_host_env :: "unit env" where
  "git_host_env =
     resume_env\<lparr>check_output :=
       exec_without_shell (\<lambda>prog. if prog = ''git'' then Some git_program else None)\<rparr>"

definition cd_host_env :: "unit env" where
  "cd_host_env =
     resume_env\<lparr>check_output :=
       exec_without_shell (\<lambda>prog. if prog = ''git'' then Some git_program
                                   else if prog = ''cd'' then Some silent_program else None)\<rparr>"

lemma rev_parse_call_runs_cd:
  "exec_without_shell installed (rev_parse_call od) =
     (case installed ''cd'' of
        None \<Rightarrow> Inl (FileNotFoundError ''cd'')
      | Some p \<Rightarrow> p [od @ ''/repo'', ''&&'', ''git'', ''rev-parse'', ''HEAD''])"
  by (simp add: exec_without_shell_def rev_parse_call_def)

lemma not_fatal_empty: "\<not> sublist ''fatal'' []"
  by code_simp

text \<open>
  C8. The base revision is not captured. The call meant to capture it passes the
  words of the shell command \<open>cd output/repo && git rev-parse HEAD\<close> as an
  argument list, so the program executed is \<open>cd\<close> and git is never run. On a
  host with git and no program \<open>cd\<close>, where \<open>git rev-parse HEAD\<close> would print the
  commit id, the call raises \<open>FileNotFoundError\<close> and the run of three issues ends
  with that exception after the two subprocess calls, with no pipeline created
  and no record written: no patch of the run is a diff against the base revision.
\<close>

theorem rev_parse_call_never_reaches_git:
  "hd (rev_parse_call ''output'') = ''cd''
   \<and> git_program [''rev-parse'', ''HEAD''] = Inr (''0123abc'' @ [CHR 0x0A])
   \<and> check_output git_host_env (rev_parse_call ''output'') = Inl (FileNotFoundError ''cd'')
   \<and> resolve_issues git_host_env [0, 1, 2] ''o'' ''r'' ''tok'' (Some ''u'') 30 None 1 ''output''
        cfg1 ''img''
      = \<lparr>outcome = Raised (FileNotFoundError ''cd''),
         subprocess_calls = [clone_call (Some ''u'') ''tok'' ''o'' ''r'' ''output'',
                             rev_parse_call ''output''],
         pipelines = [], appended = [], cleanup_ran = False\<rparr>"
proof -
  have 1: "hd (rev_parse_call ''output'') = ''cd''"
    by (simp add: rev_parse_call_def)
  have 2: "git_program [''rev-parse'', ''HEAD''] = Inr (''0123abc'' @ [CHR 0x0A])"
    by (simp add: git_program_def)
  have 3: "check_output git_host_env (rev_parse_call ''output'') = Inl (FileNotFoundError ''cd'')"
    by (simp add: git_host_env_def rev_parse_call_runs_cd)
  have d: "download_issues_from_github git_host_env ''o'' ''r'' ''tok'' = Inr [issue1, issue2, issue3]"
    by (simp add: git_host_env_def resume_env_def)
  have c: "check_output git_host_env (clone_call (Some ''u'') ''tok'' ''o'' ''r'' ''output'') = Inr []"
    by (simp add: git_host_env_def exec_without_shell_def clone_call_def git_program_def)
  have 4: "resolve_issues git_host_env [0, 1, 2] ''o'' ''r'' ''tok'' (Some ''u'') 30 None 1 ''output''
        cfg1 ''img''
      = \<lparr>outcome = Raised (FileNotFoundError ''cd''),
         subprocess_calls = [clone_call (Some ''u'') ''tok'' ''o'' ''r'' ''output'',
                             rev_parse_call ''output''],
         pipelines = [], appended = [], cleanup_ran = False\<rparr>"
    by (simp add: resolve_issues_def d c 3 not_fatal_empty aborted_def Let_def)
  from 1 2 3 4 show ?thesis by blast
qed

text \<open>
  On the host whose \<open>cd\<close> prints nothing the run goes on, and the value every
  pipeline and record is given is the empty string, not the commit id.
\<close>

lemma process_issue_any_base:
  "fst (process_issue (resume_env\<lparr>check_output := f\<rparr>) iss bc mi cfg od img rl)
     = Inr ((record_of iss)\<lparr>base_commit := bc\<rparr>)"
proof -
  obtain e1 where 1: "initialize_runtime fixed_diff_runtime () = (Inr (), (), e1)"
    using initialize_fixed by blast
  obtain e2 where 2: "complete_runtime fixed_diff_runtime () bc
      = (Inr (Some ''diff --git a/f b/f''), (), e2)"
    using complete_fixed by blast
  obtain e3 where 3: "guess_success json_loads_stub agreeing_oracle iss [first_event, done_event] cfg
     = (Inr (JBool True, JString ''ok''), e3)"
    using guess_agreeing by blast
  show ?thesis
    by (simp add: process_issue_def resume_env_def 1 2 3 final_state_def record_of_def)
qed

lemma silent_cd_gives_empty_base_commit:
  "check_output cd_host_env (rev_parse_call ''output'') = Inr []
   \<and> map base_commit
        (appended (resolve_issues cd_host_env [0, 1, 2] ''o'' ''r'' ''tok'' (Some ''u'') 30 None 1
                     ''output'' cfg1 ''img''))
      = [[], [], []]"
proof -
  let ?f = "exec_without_shell (\<lambda>prog. if prog = ''git'' then Some git_program
                                   else if prog = ''cd'' then Some silent_program else None)"
  have e: "cd_host_env = resume_env\<lparr>check_output := ?f\<rparr>"
    by (simp add: cd_host_env_def)
  have 1: "download_issues_from_github cd_host_env ''o'' ''r'' ''tok'' = Inr [issue1, issue2, issue3]"
    by (simp add: cd_host_env_def resume_env_def)
  have 2: "check_output cd_host_env (clone_call (Some ''u'') ''tok'' ''o'' ''r'' ''output'') = Inr []"
    by (simp add: cd_host_env_def exec_without_shell_def clone_call_def git_program_def)
  have 3: "check_output cd_host_env (rev_parse_call ''output'') = Inr []"
    by (simp add: cd_host_env_def rev_parse_call_runs_cd silent_program_def)
  have 4: "(case read_lines cd_host_env (path_join ''output'' ''output.jsonl'') of
            None \<Rightarrow> Inr {}
          | Some lines \<Rightarrow> load_finished_numbers (json_loads cd_host_env) lines {})
      = Inr {JInt 1, JInt 2}"
    using scan_resume by (simp add: cd_host_env_def resume_env_def path_join_def)
  let ?T = "run_pipelines cd_host_env [issue1, issue2, issue3] [] 30 cfg1 ''output'' ''img'' 1"
  have t: "map fst ?T = [Inr ((record_of issue1)\<lparr>base_commit := []\<rparr>),
                         Inr ((record_of issue2)\<lparr>base_commit := []\<rparr>),
                         Inr ((record_of issue3)\<lparr>base_commit := []\<rparr>)]"
    unfolding e by (simp add: run_pipelines_def process_issue_any_base)
  have g: "gather [Inr ((record_of issue1)\<lparr>base_commit := []\<rparr>),
                   Inr ((record_of issue2)\<lparr>base_commit := []\<rparr>),
                   Inr ((record_of issue3)\<lparr>base_commit := []\<rparr>)] [0, 1, 2]
      = (None, [(record_of issue1)\<lparr>base_commit := []\<rparr>,
                (record_of issue2)\<lparr>base_commit := []\<rparr>,
                (record_of issue3)\<lparr>base_commit := []\<rparr>])"
    by (simp add: gather_def)
  have r: "resolve_issues cd_host_env [0, 1, 2] ''o'' ''r'' ''tok'' (Some ''u'') 30 None 1
             ''output'' cfg1 ''img'' =
     \<lparr>outcome = run_outcome_of (fst (gather (map fst ?T) [0, 1, 2])),
      subprocess_calls = [clone_call (Some ''u'') ''tok'' ''o'' ''r'' ''output'',
                          rev_parse_call ''output''],
      pipelines = zip [issue1, issue2, issue3] ?T,
      appended = snd (gather (map fst ?T) [0, 1, 2]),
      cleanup_ran = (fst (gather (map fst ?T) [0, 1, 2]) = Some KeyboardInterrupt)\<rparr>"
    by (rule resolve_issues_ran [OF 1 2 not_fatal_empty 3 4]) (simp_all add: py_strip_empty)
  have "map base_commit
        (appended (resolve_issues cd_host_env [0, 1, 2] ''o'' ''r'' ''tok'' (Some ''u'') 30 None 1
                     ''output'' cfg1 ''img''))
      = [[], [], []]"
    unfolding r t g by simp
  with 3 show ?thesis by simp
qed

subsection \<open>A pipeline that raises\<close>

text \<open>
  The same three issues with an empty output store, and a sandbox that cannot be
  created for issue 2. With one worker, issue 1 completes, then issue 2 raises.
\<close>

definition failing_env :: "unit env" where
  "failing_env =
     resume_env
       \<lparr>read_lines := (\<lambda>path. None),
        create_runtime := (\<lambda>config sid.
          if sid = ''2'' then Inl (ExternalError ''sandbox did not start'') else Inr ())\<rparr>"

definition failed_run :: run_result where
  "failed_run =
     resolve_issues failing_env [0, 1] ''o'' ''r'' ''tok'' (Some ''u'') 30 None 1 ''output''
       cfg1 ''img''"

lemma str_int_1: "str_int 1 = ''1''"
  by code_simp

lemma str_int_2: "str_int 2 = ''2''"
  by code_simp

lemma str_int_3: "str_int 3 = ''3''"
  by code_simp

lemma issue_numbers: "number issue1 = 1" "number issue2 = 2" "number issue3 = 3"
  by (simp_all add: issue1_def issue2_def issue3_def)

lemma process_issue_failing:
  "fst (process_issue failing_env issue1 ''0123abc'' mi cfg od img rl) = Inr (record_of issue1)"
  "process_issue failing_env issue2 ''0123abc'' mi cfg od img rl
     = (Inl (ExternalError ''sandbox did not start''), [])"
  "fst (process_issue failing_env issue3 ''0123abc'' mi cfg od img rl) = Inr (record_of issue3)"
proof -
  obtain e1 where 1: "initialize_runtime fixed_diff_runtime () = (Inr (), (), e1)"
    using initialize_fixed by blast
  obtain e2 where 2: "complete_runtime fixed_diff_runtime () ''0123abc''
      = (Inr (Some ''diff --git a/f b/f''), (), e2)"
    using complete_fixed by blast
  obtain e3 where 3: "guess_success json_loads_stub agreeing_oracle issue1
        [first_event, done_event] cfg = (Inr (JBool True, JString ''ok''), e3)"
    using guess_agreeing by blast
  obtain e4 where 4: "guess_success json_loads_stub agreeing_oracle issue3
        [first_event, done_event] cfg = (Inr (JBool True, JString ''ok''), e4)"
    using guess_agreeing by blast
  show "fst (process_issue failing_env issue1 ''0123abc'' mi cfg od img rl)
      = Inr (record_of issue1)"
    by (simp add: process_issue_def failing_env_def resume_env_def 1 2 3 final_state_def
        record_of_def str_int_1 issue_numbers)
  show "process_issue failing_env issue2 ''0123abc'' mi cfg od img rl
     = (Inl (ExternalError ''sandbox did not start''), [])"
    by (simp add: process_issue_def failing_env_def resume_env_def str_int_2 issue_numbers)
  show "fst (process_issue failing_env issue3 ''0123abc'' mi cfg od img rl)
      = Inr (record_of issue3)"
    by (simp add: process_issue_def failing_env_def resume_env_def 1 2 4 final_state_def
        record_of_def str_int_3 issue_numbers)
qed

lemma failed_run_value:
  "outcome failed_run = Raised (ExternalError ''sandbox did not start'')
   \<and> pipelines failed_run ! 1 = (issue2, Inl (ExternalError ''sandbox did not start''), [])
   \<and> map fst (pipelines failed_run) = [issue1, issue2, issue3]
   \<and> map (\<lambda>p. fst (snd p)) (pipelines failed_run)
       = [Inr (record_of issue1), Inl (ExternalError ''sandbox did not start''),
          Inr (record_of issue3)]
   \<and> appended failed_run = [record_of issue1]"
proof -
  have 1: "download_issues_from_github failing_env ''o'' ''r'' ''tok''
      = Inr [issue1, issue2, issue3]"
    by (simp add: failing_env_def resume_env_def)
  have 2: "check_output failing_env (clone_call (Some ''u'') ''tok'' ''o'' ''r'' ''output'')
      = Inr ''0123abc''"
    by (simp add: failing_env_def resume_env_def)
  have 3: "check_output failing_env (rev_parse_call ''output'') = Inr ''0123abc''"
    by (simp add: failing_env_def resume_env_def)
  have 4: "(case read_lines failing_env (path_join ''output'' ''output.jsonl'') of
            None \<Rightarrow> Inr {}
          | Some lines \<Rightarrow> load_finished_numbers (json_loads failing_env) lines {})
      = Inr {}"
    by (simp add: failing_env_def resume_env_def)
  have s: "py_strip ''0123abc'' = ''0123abc''"
    by (rule py_strip_outputs)
  let ?T = "run_pipelines failing_env [issue1, issue2, issue3] ''0123abc'' 30 cfg1
        ''output'' ''img'' 1"
  have t: "map fst ?T = [Inr (record_of issue1), Inl (ExternalError ''sandbox did not start''),
        Inr (record_of issue3)]"
    by (simp add: run_pipelines_def process_issue_failing)
  have t1: "?T ! 1 = (Inl (ExternalError ''sandbox did not start''), [])"
    by (simp add: run_pipelines_def process_issue_failing)
  have g: "gather [Inr (record_of issue1), Inl (ExternalError ''sandbox did not start''),
        Inr (record_of issue3)] [0, 1]
      = (Some (ExternalError ''sandbox did not start''), [record_of issue1])"
    by (simp add: gather_def)
  have l: "length ?T = 3"
    by (simp add: run_pipelines_def)
  have r: "failed_run =
     \<lparr>outcome = run_outcome_of (fst (gather (map fst ?T) [0, 1])),
      subprocess_calls = [clone_call (Some ''u'') ''tok'' ''o'' ''r'' ''output'',
                          rev_parse_call ''output''],
      pipelines = zip [issue1, issue2, issue3] ?T,
      appended = snd (gather (map fst ?T) [0, 1]),
      cleanup_ran = (fst (gather (map fst ?T) [0, 1]) = Some KeyboardInterrupt)\<rparr>"
    unfolding failed_run_def
    by (rule resolve_issues_ran [OF 1 2 not_fatal 3 4]) (simp_all add: s)
  have m: "map (\<lambda>p. fst (snd p)) (zip [issue1, issue2, issue3] ?T) = map fst ?T"
  proof -
    have "map (\<lambda>p. fst (snd p)) (zip [issue1, issue2, issue3] ?T)
        = map fst (map snd (zip [issue1, issue2, issue3] ?T))"
      by (simp add: comp_def)
    also have "map snd (zip [issue1, issue2, issue3] ?T) = ?T"
      using l by (intro map_snd_zip) simp
    finally show ?thesis .
  qed
  have "map (\<lambda>p. fst (snd p)) (pipelines failed_run) = map fst ?T"
    unfolding r using m by simp
  then have 5: "map (\<lambda>p. fst (snd p)) (pipelines failed_run)
       = [Inr (record_of issue1), Inl (ExternalError ''sandbox did not start''),
          Inr (record_of issue3)]"
    using t by simp
  have "outcome failed_run = Raised (ExternalError ''sandbox did not start'')
   \<and> pipelines failed_run ! 1 = (issue2, Inl (ExternalError ''sandbox did not start''), [])
   \<and> map fst (pipelines failed_run) = [issue1, issue2, issue3]
   \<and> appended failed_run = [record_of issue1]"
    unfolding r t g using l t1 by (simp add: run_outcome_of_def)
  with 5 show ?thesis by simp
qed

lemma failed_schedule_valid:
  "valid_schedule (map (\<lambda>p. fst (snd p)) (pipelines failed_run)) [0, 1]"
  using failed_run_value by (simp add: valid_schedule_def)

text \<open>
  C2, as stated, fails: in the run above the pipeline of issue 2 raises when its
  sandbox is created, \<open>resolve_issues\<close> as a whole raises that exception, and the
  output file holds the record of issue 1 only: none for issue 2, whose error is
  not captured anywhere, and none for issue 3.
\<close>

theorem failing_item_ends_run_without_record:
  "outcome failed_run = Raised (ExternalError ''sandbox did not start'')
   \<and> fst (snd (pipelines failed_run ! 1)) = Inl (ExternalError ''sandbox did not start'')
   \<and> map (\<lambda>p. number (fst p)) (pipelines failed_run) = [1, 2, 3]
   \<and> map (\<lambda>out. number (issue out)) (appended failed_run) = [1]"
proof -
  have "map (\<lambda>p. number (fst p)) (pipelines failed_run)
      = map number (map fst (pipelines failed_run))"
    by (simp add: comp_def)
  with failed_run_value show ?thesis
    by (simp add: issue1_def issue2_def issue3_def record_of_def)
qed

text \<open>
  C2, amended. In a run with at least one worker and distinct issues, let the
  pipeline of an issue raise, and let no completed pipeline raise
  \<open>KeyboardInterrupt\<close> (the one exception \<open>resolve_issues\<close> catches). Then the
  exception is not captured: the run ends by raising the exception of a pipeline
  that completed, and no record of the issue whose pipeline raised is appended to
  the output file.
\<close>

theorem raising_pipeline_not_captured:
  assumes r: "r = resolve_issues env schedule ow rp tk un mi li nw od cfg img"
    and nw: "0 < nw"
    and i: "i \<in> set schedule" "i < length (pipelines r)"
    and raised: "pipelines r ! i = (iss, Inl e, trace)"
    and dist: "distinct (map fst (pipelines r))"
    and nki: "\<forall>j \<in> set schedule. j < length (pipelines r) \<longrightarrow>
                fst (snd (pipelines r ! j)) \<noteq> Inl KeyboardInterrupt"
  shows "(\<exists>j \<in> set schedule. \<exists>e'. j < length (pipelines r)
            \<and> fst (snd (pipelines r ! j)) = Inl e' \<and> outcome r = Raised e')
       \<and> (\<forall>out \<in> set (appended r). issue out \<noteq> iss)"
  using r
proof (cases rule: resolve_issues_shape)
  case (abort e calls)
  with i(2) show ?thesis by (simp add: aborted_def)
next
  case (ran issues printed)
  let ?bc = "py_strip printed"
  let ?T = "run_pipelines env issues ?bc mi cfg od img nw"
  let ?tasks = "map fst ?T"
  have len: "length ?T = length issues" by (simp add: run_pipelines_def)
  with ran(3) have lp: "length (pipelines r) = length issues" by simp
  have nth: "pipelines r ! j = (issues ! j, ?T ! j)" if "j < length issues" for j
    using that ran(3) len by simp
  have task: "fst (snd (pipelines r ! j)) = ?tasks ! j" if "j < length issues" for j
    using nth [OF that] that len by simp
  from dist ran(3) len have di: "distinct issues" by simp
  from nw have ok: "\<not> (nw < 0 \<or> (nw = 0 \<and> issues \<noteq> []))" by simp
  note g = ran(5) [OF ok]
  obtain first records where gt: "gather ?tasks schedule = (first, records)"
    by (cases "gather ?tasks schedule")
  from i lp raised task [of i] have ti: "?tasks ! i = Inl e" by simp
  have "first \<noteq> None"
  proof
    assume "first = None"
    with gt have "gather ?tasks schedule = (None, records)" by simp
    from gather_not_raised [OF this i(1)] i(2) lp len ti show False by simp
  qed
  then obtain e' where e': "first = Some e'" by auto
  with gt have "gather ?tasks schedule = (Some e', records)" by simp
  from gather_raised [OF this] obtain j where
    j: "j \<in> set schedule" "j < length ?tasks" "?tasks ! j = Inl e'" by blast
  with len lp task [of j] have pj: "j < length (pipelines r)" "fst (snd (pipelines r ! j)) = Inl e'"
    by simp_all
  from g gt e' have "outcome r = Raised e'" by (simp add: run_outcome_of_def)
  with j(1) pj have part1: "\<exists>j \<in> set schedule. \<exists>e'. j < length (pipelines r)
            \<and> fst (snd (pipelines r ! j)) = Inl e' \<and> outcome r = Raised e'"
    by blast
  have part2: "issue out \<noteq> iss" if "out \<in> set (appended r)" for out
  proof
    assume eq: "issue out = iss"
    from that g gt have "out \<in> set records" by simp
    from gather_records [OF gt this] obtain k where
      k: "k < length ?tasks" "?tasks ! k = Inr out" by blast
    then have kl: "k < length issues" using len by simp
    with k(2) have "fst (process_issue env (issues ! k) ?bc mi cfg od img (nw > 1)) = Inr out"
      by (simp add: run_pipelines_def)
    then obtain tr where "process_issue env (issues ! k) ?bc mi cfg od img (nw > 1) = (Inr out, tr)"
      by (cases "process_issue env (issues ! k) ?bc mi cfg od img (nw > 1)") auto
    from process_issue_record [OF this] eq have "issues ! k = iss" by simp
    moreover from raised nth [of i] i(2) lp have "issues ! i = iss" by simp
    moreover from i(2) lp have "i < length issues" by simp
    with di kl have "(issues ! k = issues ! i) = (k = i)" by (rule nth_eq_iff_index_eq)
    ultimately have "k = i" by simp
    with k(2) ti show False by simp
  qed
  from part1 part2 show ?thesis by blast
qed

theorem raising_pipeline_not_captured_witness:
  "outcome failed_run = Raised (ExternalError ''sandbox did not start'')
   \<and> pipelines failed_run ! 1 = (issue2, Inl (ExternalError ''sandbox did not start''), [])
   \<and> list_all (\<lambda>out. issue out \<noteq> issue2) (appended failed_run)"
proof -
  let ?res = "map (\<lambda>p. fst (snd p)) (pipelines failed_run)"
  from failed_run_value have v: "?res = [Inr (record_of issue1),
      Inl (ExternalError ''sandbox did not start''), Inr (record_of issue3)]"
    by simp
  then have "length ?res = 3" by simp
  then have l: "length (pipelines failed_run) = 3" by simp
  have n: "fst (snd (pipelines failed_run ! j)) = ?res ! j" if "j < 3" for j
    using that l by simp
  have d: "distinct (map fst (pipelines failed_run))"
    using failed_run_value by (simp add: issue1_def issue2_def issue3_def)
  have k: "\<forall>j \<in> set [0, 1::nat]. j < length (pipelines failed_run) \<longrightarrow>
                fst (snd (pipelines failed_run ! j)) \<noteq> Inl KeyboardInterrupt"
    using n [of 0] n [of 1] v by simp
  have p: "pipelines failed_run ! 1 = (issue2, Inl (ExternalError ''sandbox did not start''), [])"
    using failed_run_value by simp
  have i: "1 \<in> set [0, 1::nat]" "1 < length (pipelines failed_run)"
    using l by simp_all
  from raising_pipeline_not_captured [OF failed_run_def _ i p d k]
  have "\<forall>out \<in> set (appended failed_run). issue out \<noteq> issue2" by simp
  then have "list_all (\<lambda>out. issue out \<noteq> issue2) (appended failed_run)"
    by (simp add: list_all_iff)
  with failed_run_value p show ?thesis by simp
qed

subsection \<open>The command surface\<close>

text \<open>
  Arguments without a token (and no \<open>GITHUB_TOKEN\<close> in the environment), and an
  environment in which the output directory exists.
\<close>

definition no_token_args :: Args where
  "no_token_args =
     \<lparr>repo = ''o/r'', token = None, username = Some ''u'',
      runtime_container_image = ''img'', agent_class = ''CodeActAgent'',
      max_iterations = 30, limit_issues = None, num_workers = 1,
      workspace_dir = ''workspace'', output_dir = ''output'',
      llm_model = Some ''m'', llm_api_key = Some ''k''\<rparr>"

definition existing_dir_env :: "unit env" where
  "existing_dir_env = resume_env\<lparr>path_exists := (\<lambda>path. path = ''output'')\<rparr>"

lemma main_bad_repo:
  assumes "\<nexists>ow rp. py_split CHR ''/'' (Args.repo a) = [ow, rp]"
  shows "\<exists>m. main env schedule a = aborted (ValueError m) []"
proof (cases "py_split CHR ''/'' (Args.repo a)")
  case Nil
  then show ?thesis by (auto simp: main_def)
next
  case c1: (Cons p ps)
  show ?thesis
  proof (cases ps)
    case Nil
    with c1 show ?thesis by (auto simp: main_def)
  next
    case c2: (Cons q qs)
    show ?thesis
    proof (cases qs)
      case Nil
      with c1 c2 assms show ?thesis by simp
    next
      case (Cons x xs)
      with c1 c2 show ?thesis by (auto simp: main_def)
    qed
  qed
qed

lemma main_good_repo:
  assumes "py_split CHR ''/'' (Args.repo a) = [ow, rp]"
  shows "\<not> truthy (token a) \<Longrightarrow> \<not> truthy (environ env ''GITHUB_TOKEN'') \<Longrightarrow>
         main env schedule a = aborted (ValueError ''Github token is required.'') []"
    and "truthy (token a) \<or> truthy (environ env ''GITHUB_TOKEN'') \<Longrightarrow>
         path_exists env (output_dir a) \<Longrightarrow>
         main env schedule a =
           aborted (ValueError (''Output directory '' @ output_dir a
             @ '' already exists, remove it or specify a different one.'')) []"
proof -
  let ?tok = "if truthy (token a) then token a else environ env ''GITHUB_TOKEN''"
  show "main env schedule a = aborted (ValueError ''Github token is required.'') []"
    if "\<not> truthy (token a)" "\<not> truthy (environ env ''GITHUB_TOKEN'')"
  proof -
    from that have "(if truthy ?tok then ?tok else None) = None" by simp
    with assms show ?thesis by (simp add: main_def Let_def)
  qed
  show "main env schedule a =
           aborted (ValueError (''Output directory '' @ output_dir a
             @ '' already exists, remove it or specify a different one.'')) []"
    if "truthy (token a) \<or> truthy (environ env ''GITHUB_TOKEN'')" "path_exists env (output_dir a)"
  proof -
    from that(1) have "truthy ?tok" by auto
    then obtain tok where "(if truthy ?tok then ?tok else None) = Some tok"
      by (cases ?tok) (simp_all add: truthy_def)
    with assms that(2) show ?thesis by (simp add: main_def Let_def)
  qed
qed

lemma main_no_token:
  assumes "\<not> truthy (token a)" and "\<not> truthy (environ env ''GITHUB_TOKEN'')"
  shows "\<exists>m. main env schedule a = aborted (ValueError m) []"
  using main_bad_repo [of a env schedule] main_good_repo(1) [OF _ assms, of _ _ schedule]
  by blast

lemma main_existing_dir:
  assumes "path_exists env (output_dir a)"
  shows "\<exists>m. main env schedule a = aborted (ValueError m) []"
proof (cases "truthy (token a) \<or> truthy (environ env ''GITHUB_TOKEN'')")
  case True
  with main_bad_repo [of a env schedule] main_good_repo(2) [OF _ True assms, of _ _ schedule]
  show ?thesis by blast
next
  case False
  with main_no_token [of a env schedule] show ?thesis by blast
qed

text \<open>
  C9. The command surface fails before anything is scheduled. When the token is
  missing (neither the argument nor \<open>GITHUB_TOKEN\<close> is a non-empty string) or the
  output directory exists, the script raises a \<open>ValueError\<close> and has made no
  subprocess call, created no pipeline and appended no record. For a \<open>--repo\<close>
  of the form \<open>owner/repo\<close> the error is \<open>Github token is required.\<close> when the
  token is missing, and otherwise the refusal of the existing output directory.
\<close>

theorem main_refuses_before_scheduling:
  "(((\<not> truthy (token a) \<and> \<not> truthy (environ env ''GITHUB_TOKEN''))
       \<or> path_exists env (output_dir a))
      \<longrightarrow> (\<exists>m. outcome (main env schedule a) = Raised (ValueError m))
          \<and> subprocess_calls (main env schedule a) = []
          \<and> pipelines (main env schedule a) = []
          \<and> appended (main env schedule a) = [])
   \<and> (py_split CHR ''/'' (Args.repo a) = [ow, rp]
        \<and> \<not> truthy (token a) \<and> \<not> truthy (environ env ''GITHUB_TOKEN'')
      \<longrightarrow> outcome (main env schedule a) = Raised (ValueError ''Github token is required.''))
   \<and> (py_split CHR ''/'' (Args.repo a) = [ow, rp]
        \<and> (truthy (token a) \<or> truthy (environ env ''GITHUB_TOKEN''))
        \<and> path_exists env (output_dir a)
      \<longrightarrow> outcome (main env schedule a) =
            Raised (ValueError (''Output directory '' @ output_dir a
              @ '' already exists, remove it or specify a different one.'')))"
proof -
  have 1: "(\<exists>m. outcome (main env schedule a) = Raised (ValueError m))
          \<and> subprocess_calls (main env schedule a) = []
          \<and> pipelines (main env schedule a) = []
          \<and> appended (main env schedule a) = []"
    if "(\<not> truthy (token a) \<and> \<not> truthy (environ env ''GITHUB_TOKEN''))
       \<or> path_exists env (output_dir a)"
  proof -
    from that main_no_token [of a env schedule] main_existing_dir [of env a schedule]
    obtain m where "main env schedule a = aborted (ValueError m) []" by blast
    then show ?thesis by (simp add: aborted_def)
  qed
  have 2: "outcome (main env schedule a) = Raised (ValueError ''Github token is required.'')"
    if "py_split CHR ''/'' (Args.repo a) = [ow, rp]"
      "\<not> truthy (token a)" "\<not> truthy (environ env ''GITHUB_TOKEN'')"
    using main_good_repo(1) [OF that(1) that(2,3)] by (simp add: aborted_def)
  have 3: "outcome (main env schedule a) =
            Raised (ValueError (''Output directory '' @ output_dir a
              @ '' already exists, remove it or specify a different one.''))"
    if "py_split CHR ''/'' (Args.repo a) = [ow, rp]"
      "truthy (token a) \<or> truthy (environ env ''GITHUB_TOKEN'')"
      "path_exists env (output_dir a)"
    using main_good_repo(2) [OF that(1) that(2) that(3)] by (simp add: aborted_def)
  from 1 2 3 show ?thesis by blast
qed

theorem main_refuses_before_scheduling_witness:
  "main resume_env [0, 1, 2] no_token_args
     = aborted (ValueError ''Github token is required.'') []
   \<and> main existing_dir_env [0, 1, 2] (no_token_args\<lparr>token := Some ''tok''\<rparr>)
     = aborted (ValueError
         ''Output directory output already exists, remove it or specify a different one.'') []"
proof -
  have t: "\<not> truthy (token no_token_args)" "\<not> truthy (environ resume_env ''GITHUB_TOKEN'')"
    by (simp_all add: truthy_def no_token_args_def resume_env_def)
  have r: "py_split CHR ''/'' (Args.repo no_token_args) = [''o'', ''r'']"
    by (simp add: no_token_args_def)
  note a = main_refuses_before_scheduling [of no_token_args resume_env "[0, 1, 2]" "''o''" "''r''"]
  from a t r have 1: "outcome (main resume_env [0, 1, 2] no_token_args)
      = Raised (ValueError ''Github token is required.'')
    \<and> subprocess_calls (main resume_env [0, 1, 2] no_token_args) = []
    \<and> pipelines (main resume_env [0, 1, 2] no_token_args) = []
    \<and> appended (main resume_env [0, 1, 2] no_token_args) = []"
    by blast
  let ?b = "no_token_args\<lparr>token := Some ''tok''\<rparr>"
  have t': "truthy (token ?b)" "path_exists existing_dir_env (output_dir ?b)"
    by (simp_all add: truthy_def no_token_args_def existing_dir_env_def)
  have r': "py_split CHR ''/'' (Args.repo ?b) = [''o'', ''r'']"
    by (simp add: no_token_args_def)
  note b = main_refuses_before_scheduling [of ?b existing_dir_env "[0, 1, 2]" "''o''" "''r''"]
  from b t' r' have 2: "outcome (main existing_dir_env [0, 1, 2] ?b)
      = Raised (ValueError (''Output directory '' @ output_dir ?b
              @ '' already exists, remove it or specify a different one.''))
    \<and> subprocess_calls (main existing_dir_env [0, 1, 2] ?b) = []
    \<and> pipelines (main existing_dir_env [0, 1, 2] ?b) = []
    \<and> appended (main existing_dir_env [0, 1, 2] ?b) = []"
    by blast
  have o: "output_dir ?b = ''output''" by (simp add: no_token_args_def)
  have c1: "cleanup_ran (main resume_env [0, 1, 2] no_token_args) = False"
    using main_good_repo(1) [OF r t] by (simp add: aborted_def)
  have c2: "cleanup_ran (main existing_dir_env [0, 1, 2] ?b) = False"
    using main_good_repo(2) [OF r' _ t'(2)] t'(1) by (simp add: aborted_def)
  from 1 2 c1 c2 show ?thesis
    unfolding o by (simp add: aborted_def)
qed

section \<open>The worker pool\<close>

text \<open>
  How many pipelines run at once is decided by these lines of \<open>resolve_issues\<close>:
  \<^verbatim>\<open>
  sem = asyncio.Semaphore(num_workers)
  async def run_with_semaphore(task):
      async with sem:
          return await task
  await asyncio.gather(*[run_with_semaphore(task) for task in tasks])
  \<close>
  Creating the list \<open>tasks\<close> runs nothing: \<open>process_issue(...)\<close> and
  \<open>update_progress(...)\<close> only make coroutine objects, whose bodies start when they
  are awaited, and that \<open>await\<close> stands inside \<open>async with sem\<close>. So each wrapper
  is in one of three states: \<open>Pending\<close> (not yet past \<open>async with sem\<close>), \<open>InFlight\<close>
  (inside the block, its pipeline running) or \<open>Ended\<close>.

  The semaphore is a counter. Entering the block takes a unit and is possible
  only while the counter is positive (\<open>Acquire\<close>); leaving the block, by return,
  exception or cancellation, gives the unit back (\<open>Release\<close>); a wrapper
  cancelled while it still waits ends without touching the counter (\<open>Cancel\<close>).
  Which wrapper moves next is up to the event loop: a run of the pool is a list
  of moves, and a move that is not possible in a state has no result.
  \<open>initial_pool k n\<close> is the state when \<open>gather\<close> starts with \<open>num_workers = k\<close> and
  \<open>n\<close> tasks.
\<close>

datatype task_state = Pending | InFlight | Ended

record pool =
  sem_value :: nat
  states :: "task_state list"

definition initial_pool :: "nat \<Rightarrow> nat \<Rightarrow> pool" where
  "initial_pool k n = \<lparr>sem_value = k, states = replicate n Pending\<rparr>"

datatype move = Acquire nat | Release nat | Cancel nat

fun pool_move :: "pool \<Rightarrow> move \<Rightarrow> pool option" where
  "pool_move p (Acquire i) =
     (if i < length (states p) \<and> states p ! i = Pending \<and> 0 < sem_value p
      then Some (p\<lparr>sem_value := sem_value p - 1, states := (states p)[i := InFlight]\<rparr>)
      else None)"
| "pool_move p (Release i) =
     (if i < length (states p) \<and> states p ! i = InFlight
      then Some (p\<lparr>sem_value := sem_value p + 1, states := (states p)[i := Ended]\<rparr>)
      else None)"
| "pool_move p (Cancel i) =
     (if i < length (states p) \<and> states p ! i = Pending
      then Some (p\<lparr>states := (states p)[i := Ended]\<rparr>)
      else None)"

fun run_moves :: "pool \<Rightarrow> move list \<Rightarrow> pool option" where
  "run_moves p [] = Some p"
| "run_moves p (m # ms) =
     (case pool_move p m of None \<Rightarrow> None | Some q \<Rightarrow> run_moves q ms)"

definition in_flight :: "pool \<Rightarrow> nat" where
  "in_flight p = count_list (states p) InFlight"

lemma count_list_update:
  "i < length xs \<Longrightarrow>
   count_list (xs[i := v]) a + (if xs ! i = a then 1 else 0)
     = count_list xs a + (if v = a then 1 else 0)"
proof (induction xs arbitrary: i)
  case Nil
  then show ?case by simp
next
  case (Cons x xs)
  show ?case
  proof (cases i)
    case 0
    then show ?thesis by simp
  next
    case (Suc j)
    with Cons.prems have "j < length xs" by simp
    from Cons.IH [OF this] Suc show ?thesis by (auto split: if_splits)
  qed
qed

text \<open>
  The invariant: the units taken and the units left add up to \<open>num_workers\<close>.
\<close>

definition pool_inv :: "nat \<Rightarrow> nat \<Rightarrow> pool \<Rightarrow> bool" where
  "pool_inv k n p \<longleftrightarrow> in_flight p + sem_value p = k \<and> length (states p) = n"

lemma pool_inv_initial: "pool_inv k n (initial_pool k n)"
  by (simp add: pool_inv_def initial_pool_def in_flight_def count_list_0_iff)

lemma pool_move_inv:
  assumes "pool_move p m = Some q" and "pool_inv k n p"
  shows "pool_inv k n q"
proof (cases m)
  case (Acquire i)
  with assms(1) have i: "i < length (states p)" "states p ! i = Pending" "0 < sem_value p"
    and q: "q = p\<lparr>sem_value := sem_value p - 1, states := (states p)[i := InFlight]\<rparr>"
    by (auto split: if_splits)
  from count_list_update [OF i(1), of InFlight InFlight] i(2)
  have "count_list ((states p)[i := InFlight]) InFlight = count_list (states p) InFlight + 1"
    by simp
  with assms(2) i q show ?thesis by (simp add: pool_inv_def in_flight_def)
next
  case (Release i)
  with assms(1) have i: "i < length (states p)" "states p ! i = InFlight"
    and q: "q = p\<lparr>sem_value := sem_value p + 1, states := (states p)[i := Ended]\<rparr>"
    by (auto split: if_splits)
  from count_list_update [OF i(1), of Ended InFlight] i(2)
  have "count_list ((states p)[i := Ended]) InFlight + 1 = count_list (states p) InFlight"
    by simp
  with assms(2) i q show ?thesis by (simp add: pool_inv_def in_flight_def)
next
  case (Cancel i)
  with assms(1) have i: "i < length (states p)" "states p ! i = Pending"
    and q: "q = p\<lparr>states := (states p)[i := Ended]\<rparr>"
    by (auto split: if_splits)
  from count_list_update [OF i(1), of Ended InFlight] i(2)
  have "count_list ((states p)[i := Ended]) InFlight = count_list (states p) InFlight"
    by simp
  with assms(2) i q show ?thesis by (simp add: pool_inv_def in_flight_def)
qed

lemma run_moves_inv:
  "run_moves p ms = Some q \<Longrightarrow> pool_inv k n p \<Longrightarrow> pool_inv k n q"
proof (induction ms arbitrary: p)
  case Nil
  then show ?case by simp
next
  case (Cons m ms)
  from Cons.prems(1) obtain p' where m: "pool_move p m = Some p'" and r: "run_moves p' ms = Some q"
    by (auto split: option.splits)
  from m Cons.prems(2) have "pool_inv k n p'" by (rule pool_move_inv)
  with r show ?case by (rule Cons.IH)
qed

lemma run_moves_append:
  "run_moves p (ms @ ms') = (case run_moves p ms of None \<Rightarrow> None | Some q \<Rightarrow> run_moves q ms')"
  by (induction ms arbitrary: p) (auto split: option.splits)

text \<open>
  C7. With \<open>num_workers = k\<close> and any number \<open>n\<close> of tasks, at every instant of
  every run of the pool (after any prefix \<open>ms\<close> of its moves) at most \<open>k\<close>
  pipelines are in flight; and when \<open>gather\<close> starts none is, however many tasks
  there are: a pipeline starts only by taking a unit of the semaphore.
\<close>

theorem at_most_num_workers_in_flight:
  assumes "run_moves (initial_pool k n) (ms @ ms') = Some q"
  shows "\<exists>p. run_moves (initial_pool k n) ms = Some p \<and> in_flight p \<le> k
             \<and> in_flight (initial_pool k n) = 0"
proof -
  from assms obtain p where p: "run_moves (initial_pool k n) ms = Some p"
    by (auto simp: run_moves_append split: option.splits)
  from run_moves_inv [OF p pool_inv_initial] have "in_flight p \<le> k"
    by (simp add: pool_inv_def)
  moreover have "in_flight (initial_pool k n) = 0"
    by (simp add: initial_pool_def in_flight_def count_list_0_iff)
  ultimately show ?thesis using p by simp
qed

text \<open>
  Three tasks and two workers: a run in which the third task starts after the
  first has ended, and the attempt to start all three at once, which is not a run.
\<close>

lemma three_tasks_two_workers:
  "run_moves (initial_pool 2 3) ([Acquire 0, Acquire 1] @ [Release 0, Acquire 2, Release 2, Release 1])
     = Some \<lparr>sem_value = 2, states = [Ended, Ended, Ended]\<rparr>"
  by (simp add: initial_pool_def numeral_3_eq_3)

lemma third_must_wait:
  "run_moves (initial_pool 2 3) [Acquire 0, Acquire 1, Acquire 2] = None"
  by (simp add: initial_pool_def numeral_3_eq_3)

theorem at_most_num_workers_in_flight_witness:
  "run_moves (initial_pool 2 3) [Acquire 0, Acquire 1]
     = Some \<lparr>sem_value = 0, states = [InFlight, InFlight, Pending]\<rparr>
   \<and> in_flight \<lparr>sem_value = 0, states = [InFlight, InFlight, Pending]\<rparr> \<le> 2
   \<and> in_flight (initial_pool 2 3) = 0"
proof -
  have s: "run_moves (initial_pool 2 3) [Acquire 0, Acquire 1]
     = Some \<lparr>sem_value = 0, states = [InFlight, InFlight, Pending]\<rparr>"
    by (simp add: initial_pool_def numeral_3_eq_3)
  from at_most_num_workers_in_flight [OF three_tasks_two_workers] s show ?thesis by simp
qed


end
